theory Spec2Isabelle
  imports Main "HOL-Library.Word"
begin

unbundle bit_operations_syntax

section \<open>Machine types of floats.go\<close>

text \<open>
  Go's fixed-width integers are words: arithmetic wraps, \<open>unat\<close> reads a word as
  unsigned, \<open>sint\<close> as two's complement. \<open>uint\<close> and \<open>int\<close> are the 64-bit types of
  the 64-bit platforms. A \<open>float64\<close> is its IEEE-754 binary64 bit pattern, so that
  \<open>math.Float64bits\<close> and \<open>math.Float64frombits\<close> are the identity; a \<open>float32\<close> is its
  binary32 bit pattern.
\<close>

type_synonym uint64 = "64 word"
type_synonym uint = "64 word"
type_synonym int32 = "32 word"
type_synonym int64 = "64 word"
type_synonym float64 = "64 word"
type_synonym float32 = "32 word"

subsection \<open>Comparisons and negation of floats\<close>

text \<open>
  A NaN has all exponent bits set and a non-zero significand. The other bit patterns are
  ordered by IEEE-754 as sign-magnitude integers (the two zeros are equal), which \<open>fkey\<close>
  reads off. Every comparison with a NaN is false. Negation flips the sign bit.
\<close>

definition isNaN :: "float64 \<Rightarrow> bool" where
  "isNaN f = (0x7FF0000000000000 < (f AND mask 63))"

definition fkey :: "float64 \<Rightarrow> int" where
  "fkey f = (if bit f 63 then - uint (f AND mask 63) else uint (f AND mask 63))"

definition fle :: "float64 \<Rightarrow> float64 \<Rightarrow> bool" where
  "fle a b = (\<not> isNaN a \<and> \<not> isNaN b \<and> fkey a \<le> fkey b)"

definition fge :: "float64 \<Rightarrow> float64 \<Rightarrow> bool" where
  "fge a b = fle b a"

definition feq :: "float64 \<Rightarrow> float64 \<Rightarrow> bool" where
  "feq a b = (\<not> isNaN a \<and> \<not> isNaN b \<and> fkey a = fkey b)"

definition fneg :: "float64 \<Rightarrow> float64" where
  "fneg f = f XOR push_bit 63 1"

definition fabs :: "float64 \<Rightarrow> float64" where
  "fabs f = f AND mask 63"

definition fzero :: float64 where
  "fzero = 0"

definition fone :: float64 where
  "fone = 0x3FF0000000000000"

definition MaxFloat32 :: float64 where
  "MaxFloat32 = 0x47EFFFFFE0000000"

definition MaxFloat64 :: float64 where
  "MaxFloat64 = 0x7FEFFFFFFFFFFFFF"

definition isNaN32 :: "float32 \<Rightarrow> bool" where
  "isNaN32 f = (0x7F800000 < (f AND mask 31))"

definition fkey32 :: "float32 \<Rightarrow> int" where
  "fkey32 f = (if bit f 31 then - uint (f AND mask 31) else uint (f AND mask 31))"

definition fle32 :: "float32 \<Rightarrow> float32 \<Rightarrow> bool" where
  "fle32 a b = (\<not> isNaN32 a \<and> \<not> isNaN32 b \<and> fkey32 a \<le> fkey32 b)"

definition feq32 :: "float32 \<Rightarrow> float32 \<Rightarrow> bool" where
  "feq32 a b = (\<not> isNaN32 a \<and> \<not> isNaN32 b \<and> fkey32 a = fkey32 b)"

definition MaxFloat32_32 :: float32 where
  "MaxFloat32_32 = 0x7F7FFFFF"

subsection \<open>Conversions between the two widths\<close>

fun highBit :: "nat \<Rightarrow> nat" where
  "highBit n = (if n < 2 then 0 else Suc (highBit (n div 2)))"

text \<open>
  \<open>float64(x)\<close> for a \<open>float32\<close> is exact: a normal number is re-biased, a subnormal
  \<open>m * 2^-149\<close> is normalised at its highest set bit, infinities and NaNs keep their
  exponent field.
\<close>

definition float64_of_float32 :: "float32 \<Rightarrow> float64" where
  "float64_of_float32 f =
    (let sgn = push_bit 63 (ucast (drop_bit 31 f)) :: uint64;
         ex = unat (drop_bit 23 f AND mask 8);
         m = ucast (f AND mask 23) :: uint64
     in if ex = 255 then sgn OR 0x7FF0000000000000 OR push_bit 29 m
        else if ex = 0 then
          (if m = 0 then sgn
           else let k = highBit (unat m)
                in sgn OR push_bit 52 (of_nat (k + 874)) OR push_bit (52 - k) (m AND mask k))
        else sgn OR push_bit 52 (of_nat (ex + 896)) OR push_bit 29 m)"

text \<open>
  \<open>float32(x)\<close> for a \<open>float64\<close> rounds to nearest, ties to even; a magnitude that
  rounds beyond \<open>MaxFloat32\<close> overflows to the infinity \<open>0x7F800000\<close>.
\<close>

definition float32_of_float64 :: "float64 \<Rightarrow> float32" where
  "float32_of_float64 f =
    (let sgn = push_bit 31 (ucast (drop_bit 63 f)) :: float32;
         ex = unat (drop_bit 52 f AND mask 11);
         m = unat (f AND mask 52)
     in if ex = 2047 then
          (if m = 0 then sgn OR 0x7F800000 else sgn OR 0x7FC00000 OR of_nat (m div 2 ^ 29))
        else if ex = 0 then sgn
        else
          (let sig = 2 ^ 52 + m;
               shift = 29 + (897 - ex);
               q = sig div 2 ^ shift;
               r = sig mod 2 ^ shift;
               q' = (if 2 ^ (shift - 1) < r \<or> (r = 2 ^ (shift - 1) \<and> odd q) then q + 1 else q);
               bits = (ex - 897) * 2 ^ 23 + q'
           in if 0x7F800000 \<le> bits then sgn OR 0x7F800000 else sgn OR of_nat bits))"

section \<open>Significand and exponent of a float\<close>

text \<open>
  Modelled from the spec: \<open>bitmask64\<close> is not among the sources. Its uses fix it:
  \<open>bitmask64(float64ExpBits-1)\<close> is the exponent bias 1023 and
  \<open>bitmask64(float64SignifBits)\<close> masks the 52 significand bits, so \<open>bitmask64(n)\<close> is the
  word whose \<open>n\<close> low bits are set.
\<close>

definition bitmask64 :: "uint \<Rightarrow> uint64" where
  "bitmask64 n = mask (unat n)"

definition float32ExpBits :: uint where "float32ExpBits = 8"
definition float32SignifBits :: uint where "float32SignifBits = 23"
definition float64ExpBits :: uint where "float64ExpBits = 11"
definition float64SignifBits :: uint where "float64SignifBits = 52"
definition floatExpLabel :: string where "floatExpLabel = ''floatexp''"
definition floatSignifLabel :: string where "floatSignifLabel = ''floatsignif''"

text \<open>\<open>uint(e)\<close> of an \<open>int32\<close> sign-extends; shifts by 64 or more give 0, as in Go.\<close>

definition ufloatFracBits :: "int32 \<Rightarrow> uint \<Rightarrow> uint" where
  "ufloatFracBits e signifBits =
    (if e \<le>s 0 then signifBits
     else if scast e < signifBits then signifBits - scast e
     else 0)"

definition ufloatParts :: "float64 \<Rightarrow> uint \<Rightarrow> uint \<Rightarrow> int32 \<times> uint64 \<times> uint64" where
  "ufloatParts f expBits signifBits =
    (let u = f AND mask 63;
         e0 = ucast (drop_bit (unat float64SignifBits) u) - ucast (bitmask64 (float64ExpBits - 1)) :: int32;
         b = ucast (bitmask64 (expBits - 1)) :: int32;
         e = (if e0 <s - b + 1 then - b + 1 else if b <s e0 then b else e0);
         s = drop_bit (unat (float64SignifBits - signifBits)) (u AND bitmask64 float64SignifBits);
         n = ufloatFracBits e signifBits
     in (e, drop_bit (unat n) s, s AND bitmask64 n))"

section \<open>The bit stream and the decoders floats.go calls\<close>

text \<open>
  A failed \<open>assert\<close> or \<open>assertf\<close> panics; the model returns \<open>AssertionFailed\<close> with the
  message. A decoder that does not return (its own panic, an exhausted or overrun
  stream) aborts the draw.
\<close>

datatype failure = AssertionFailed string | DrawAborted

datatype groupEvent = BeginGroup string bool nat | EndGroup nat bool

text \<open>
  Modelled from the spec: the \<open>bitStream\<close> interface is not among the sources. The stream
  is a recorded sequence of words with a cursor; the group operations performed on it are
  kept in order in \<open>groupLog\<close>. \<open>beginGroup(label, standalone)\<close> opens a group and returns
  its token, here the position of the opening in the log; \<open>endGroup(token, discard)\<close>
  closes the group of that token.
\<close>

record bitStream =
  recorded :: "uint64 list"
  cursor :: nat
  groupLog :: "groupEvent list"

definition beginGroup :: "bitStream \<Rightarrow> string \<Rightarrow> bool \<Rightarrow> nat \<times> bitStream" where
  "beginGroup s label standalone =
    (let i = length (groupLog s)
     in (i, s\<lparr>groupLog := groupLog s @ [BeginGroup label standalone i]\<rparr>))"

definition endGroup :: "bitStream \<Rightarrow> nat \<Rightarrow> bool \<Rightarrow> bitStream" where
  "endGroup s i discard = s\<lparr>groupLog := groupLog s @ [EndGroup i discard]\<rparr>"

text \<open>
  A sequence of group operations is well-nested from a stack of open tokens when every
  \<open>EndGroup\<close> closes the group opened last and nothing stays open at the end.
\<close>

fun wellNested :: "nat list \<Rightarrow> groupEvent list \<Rightarrow> bool" where
  "wellNested st [] = (st = [])"
| "wellNested st (BeginGroup l c i # es) = wellNested (i # st) es"
| "wellNested [] (EndGroup i d # es) = False"
| "wellNested (j # st) (EndGroup i d # es) = (i = j \<and> wellNested st es)"

text \<open>
  The decoders \<open>genIntRange\<close>, \<open>genUintRange\<close>, \<open>genUintRangeWidth\<close> and \<open>flipBiasedCoin\<close>
  are defined in files that are not among the sources, and \<open>math.Log1p\<close> and the
  float64 addition and division are Go's. They are parameters of the model: each decoder
  takes the stream and returns its value with the stream after the draw, or \<open>None\<close> when
  it does not return. What the proofs assume of them is stated below, in
  \<open>rangeContract\<close>, \<open>coinContract\<close> and \<open>groupContract\<close>.
\<close>

record externals =
  genIntRange :: "bitStream \<Rightarrow> int64 \<Rightarrow> int64 \<Rightarrow> bool \<Rightarrow> (int64 \<times> bitStream) option"
  genUintRange :: "bitStream \<Rightarrow> uint64 \<Rightarrow> uint64 \<Rightarrow> bool \<Rightarrow> (uint64 \<times> bitStream) option"
  genUintRangeWidth ::
    "bitStream \<Rightarrow> uint64 \<Rightarrow> uint64 \<Rightarrow> bool \<Rightarrow> ((uint64 \<times> int64) \<times> bitStream) option"
  flipBiasedCoin :: "bitStream \<Rightarrow> float64 \<Rightarrow> (bool \<times> bitStream) option"
  Log1p :: "float64 \<Rightarrow> float64"
  fadd :: "float64 \<Rightarrow> float64 \<Rightarrow> float64"
  fdiv :: "float64 \<Rightarrow> float64 \<Rightarrow> float64"

text \<open>
  Modelled from the spec: \<open>genUintRange(source, lo, hi, _)\<close> returns a value in
  \<open>[lo, hi]\<close>; the signed decoder and the decoder that also returns the drawn width are
  taken to keep the same promise for their value.
\<close>

definition rangeContract :: "externals \<Rightarrow> bool" where
  "rangeContract X =
    ((\<forall>s lo hi b v s'. genIntRange X s lo hi b = Some (v, s') \<longrightarrow> lo \<le>s v \<and> v \<le>s hi) \<and>
     (\<forall>s lo hi b v s'. genUintRange X s lo hi b = Some (v, s') \<longrightarrow> lo \<le> v \<and> v \<le> hi) \<and>
     (\<forall>s lo hi b v w s'. genUintRangeWidth X s lo hi b = Some ((v, w), s') \<longrightarrow> lo \<le> v \<and> v \<le> hi))"

text \<open>
  Modelled from the spec: \<open>flipBiasedCoin(source, p)\<close> is exact for \<open>p = 0\<close> and \<open>p = 1\<close>
  and consumes no entropy there.
\<close>

definition coinContract :: "externals \<Rightarrow> bool" where
  "coinContract X =
    (\<forall>s. flipBiasedCoin X s fzero = Some (False, s) \<and> flipBiasedCoin X s fone = Some (True, s))"

text \<open>
  Modelled from the spec: groups are well-nested, so a decoder that returns has closed
  every group it opened: it extends the log by a well-nested sequence.
\<close>

definition extendsNested :: "bitStream \<Rightarrow> bitStream \<Rightarrow> bool" where
  "extendsNested s s' =
    (length (groupLog s) \<le> length (groupLog s') \<and>
     take (length (groupLog s)) (groupLog s') = groupLog s \<and>
     wellNested [] (drop (length (groupLog s)) (groupLog s')))"

definition groupContract :: "externals \<Rightarrow> bool" where
  "groupContract X =
    ((\<forall>s lo hi b v s'. genIntRange X s lo hi b = Some (v, s') \<longrightarrow> extendsNested s s') \<and>
     (\<forall>s lo hi b v s'. genUintRange X s lo hi b = Some (v, s') \<longrightarrow> extendsNested s s') \<and>
     (\<forall>s lo hi b v s'. genUintRangeWidth X s lo hi b = Some (v, s') \<longrightarrow> extendsNested s s'))"

section \<open>Generation of a float in a range\<close>

text \<open>
  The loop at the end of \<open>genUfloatRange\<close>, \<open>for i := 0; i < int(fracBits)-w; i++\<close>, with
  the number of iterations left as its first argument: \<open>break\<close> returns \<open>sf\<close> as it is.
\<close>

fun shiftLoop :: "nat \<Rightarrow> uint64 \<Rightarrow> uint64 \<Rightarrow> uint64 \<Rightarrow> uint64" where
  "shiftLoop 0 sf sfMin sfMax = sf"
| "shiftLoop (Suc k) sf sfMin sfMax =
    (let sf' = push_bit 1 sf
     in if sf' < sfMin \<or> sfMax < sf' \<or> sf' < sf then sf
        else shiftLoop k sf' sfMin sfMax)"

definition genUfloatRange ::
  "externals \<Rightarrow> bitStream \<Rightarrow> float64 \<Rightarrow> float64 \<Rightarrow> uint \<Rightarrow> uint \<Rightarrow> failure + float64 \<times> bitStream" where
  "genUfloatRange X s fmin fmax expBits signifBits =
    (if \<not> (fge fmin fzero \<and> fle fmin fmax) then Inl (AssertionFailed [])
     else
      let (minExp, minSignifI, minSignifF) = ufloatParts fmin expBits signifBits;
          (maxExp, maxSignifI, maxSignifF) = ufloatParts fmax expBits signifBits;
          (i, s1) = beginGroup s floatExpLabel False
      in (case genIntRange X s1 (scast minExp) (scast maxExp) True of
            None \<Rightarrow> Inl DrawAborted
          | Some (e, s2) \<Rightarrow>
             (let s3 = endGroup s2 i False;
                  e32 = ucast e :: int32;
                  fracBits = ufloatFracBits e32 signifBits;
                  (j, s4) = beginGroup s3 floatSignifLabel False;
                  (siMin, siMax) =
                    (if minExp = maxExp then (minSignifI, maxSignifI)
                     else if e32 = minExp then (minSignifI, bitmask64 (signifBits - fracBits))
                     else if e32 = maxExp then (0, maxSignifI)
                     else (0, bitmask64 (signifBits - fracBits)))
              in (case genUintRange X s4 siMin siMax False of
                    None \<Rightarrow> Inl DrawAborted
                  | Some (si, s5) \<Rightarrow>
                     (let (sfMin, sfMax) =
                            (if minExp = maxExp \<and> minSignifI = maxSignifI then (minSignifF, maxSignifF)
                             else if e32 = minExp \<and> si = minSignifI then (minSignifF, bitmask64 fracBits)
                             else if e32 = maxExp \<and> si = maxSignifI then (0, maxSignifF)
                             else (0, bitmask64 fracBits))
                      in (case genUintRangeWidth X s5 sfMin sfMax True of
                            None \<Rightarrow> Inl DrawAborted
                          | Some ((sf, w), s6) \<Rightarrow>
                             (let s7 = endGroup s6 j False;
                                  sf' = shiftLoop (nat (sint (fracBits - w))) sf sfMin sfMax;
                                  e' = push_bit (unat float64SignifBits)
                                         (e + bitmask64 (float64ExpBits - 1));
                                  s' = push_bit (unat (float64SignifBits - signifBits))
                                         (push_bit (unat fracBits) si OR sf')
                              in Inr (e' OR s', s7))))))))"

definition genFloatRange ::
  "externals \<Rightarrow> bitStream \<Rightarrow> float64 \<Rightarrow> float64 \<Rightarrow> uint \<Rightarrow> uint \<Rightarrow> failure + float64 \<times> bitStream" where
  "genFloatRange X s fmin fmax expBits signifBits =
    (let (posMin, negMin, pNeg) =
           (if fge fmin fzero then (fmin, fzero, fzero)
            else if fle fmax fzero then (fzero, fneg fmax, fone)
            else
              let pos = Log1p X (Log1p X fmax);
                  neg = Log1p X (Log1p X (fneg fmin))
              in (fzero, fzero, fdiv X neg (fadd X neg pos)))
     in (case flipBiasedCoin X s pNeg of
           None \<Rightarrow> Inl DrawAborted
         | Some (c, s1) \<Rightarrow>
            (if c then
               (case genUfloatRange X s1 negMin (fneg fmin) expBits signifBits of
                  Inl f \<Rightarrow> Inl f
                | Inr (v, s2) \<Rightarrow> Inr (fneg v, s2))
             else genUfloatRange X s1 posMin fmax expBits signifBits)))"

section \<open>The float generators\<close>

datatype floatType = float32Type | float64Type

record floatGen =
  typ_ref :: floatType
  expBits :: uint
  signifBits :: uint
  min_bound :: float64
  max_bound :: float64
  minVal :: float64
  maxVal :: float64

text \<open>
  \<open>newGenerator\<close> wraps the \<open>floatGen\<close> it is given; the model returns the \<open>floatGen\<close>.
  The three \<open>assertf\<close> calls come first, in the order of the source.
\<close>

definition Float32sRange :: "float32 \<Rightarrow> float32 \<Rightarrow> failure + floatGen" where
  "Float32sRange fmin fmax =
    (if \<not> feq32 fmin fmin then Inl (AssertionFailed ''min should not be a NaN'')
     else if \<not> feq32 fmax fmax then Inl (AssertionFailed ''max should not be a NaN'')
     else if \<not> fle32 fmin fmax then Inl (AssertionFailed ''invalid range [%v, %v]'')
     else Inr \<lparr>typ_ref = float32Type, expBits = float32ExpBits, signifBits = float32SignifBits,
               min_bound = float64_of_float32 fmin, max_bound = float64_of_float32 fmax,
               minVal = fneg MaxFloat32, maxVal = MaxFloat32\<rparr>)"

definition Float64sRange :: "float64 \<Rightarrow> float64 \<Rightarrow> failure + floatGen" where
  "Float64sRange fmin fmax =
    (if \<not> feq fmin fmin then Inl (AssertionFailed ''min should not be a NaN'')
     else if \<not> feq fmax fmax then Inl (AssertionFailed ''max should not be a NaN'')
     else if \<not> fle fmin fmax then Inl (AssertionFailed ''invalid range [%v, %v]'')
     else Inr \<lparr>typ_ref = float64Type, expBits = float64ExpBits, signifBits = float64SignifBits,
               min_bound = fmin, max_bound = fmax,
               minVal = fneg MaxFloat64, maxVal = MaxFloat64\<rparr>)"

definition Float32s :: "failure + floatGen" where
  "Float32s = Float32sRange (MaxFloat32_32 XOR push_bit 31 1) MaxFloat32_32"

definition Float64s :: "failure + floatGen" where
  "Float64s = Float64sRange (fneg MaxFloat64) MaxFloat64"

datatype floatValue = Float32Value float32 | Float64Value float64

definition floatGen_value ::
  "externals \<Rightarrow> floatGen \<Rightarrow> bitStream \<Rightarrow> failure + floatValue \<times> bitStream" where
  "floatGen_value X g s =
    (case genFloatRange X s (min_bound g) (max_bound g) (expBits g) (signifBits g) of
       Inl f \<Rightarrow> Inl f
     | Inr (f, s') \<Rightarrow>
        (if typ_ref g = float32Type then Inr (Float32Value (float32_of_float64 f), s')
         else Inr (Float64Value f, s')))"

section \<open>A replay decoder\<close>

text \<open>
  Modelled from the spec: a decoder family in replay mode, for running the generators on a
  recorded stream. Each draw reads one recorded word and fails past the end of the record
  (the overrun). A ranged draw takes the word when it lies in the range and the lower bound
  otherwise, and does not return for an empty range; its width is the bit length of the
  value. The coin is exact at 0 and 1 without reading anything, and otherwise takes the
  low bit of the word. The float operations are placeholders.
\<close>

definition drawWord :: "bitStream \<Rightarrow> (uint64 \<times> bitStream) option" where
  "drawWord s =
    (if cursor s < length (recorded s)
     then Some (recorded s ! cursor s, s\<lparr>cursor := Suc (cursor s)\<rparr>)
     else None)"

definition bitLen :: "uint64 \<Rightarrow> int64" where
  "bitLen v = (if v = 0 then 0 else of_nat (Suc (highBit (unat v))))"

definition replay :: externals where
  "replay =
    \<lparr>genIntRange = (\<lambda>s lo hi b.
        if lo \<le>s hi then
          (case drawWord s of None \<Rightarrow> None
           | Some (r, s') \<Rightarrow> Some (if lo \<le>s r \<and> r \<le>s hi then r else lo, s'))
        else None),
     genUintRange = (\<lambda>s lo hi b.
        if lo \<le> hi then
          (case drawWord s of None \<Rightarrow> None
           | Some (r, s') \<Rightarrow> Some (if lo \<le> r \<and> r \<le> hi then r else lo, s'))
        else None),
     genUintRangeWidth = (\<lambda>s lo hi b.
        if lo \<le> hi then
          (case drawWord s of None \<Rightarrow> None
           | Some (r, s') \<Rightarrow>
              (let v = (if lo \<le> r \<and> r \<le> hi then r else lo) in Some ((v, bitLen v), s')))
        else None),
     flipBiasedCoin = (\<lambda>s p.
        if p = fzero then Some (False, s)
        else if p = fone then Some (True, s)
        else (case drawWord s of None \<Rightarrow> None | Some (r, s') \<Rightarrow> Some (bit r 0, s'))),
     Log1p = (\<lambda>x. x),
     fadd = (\<lambda>x y. x),
     fdiv = (\<lambda>x y. 0x3FE0000000000000)\<rparr>"

definition stream :: "uint64 list \<Rightarrow> bitStream" where
  "stream ws = \<lparr>recorded = ws, cursor = 0, groupLog = []\<rparr>"

section \<open>The filter combinator\<close>

text \<open>
  Modelled from the spec: \<open>Filter\<close> and the property runner are not among the sources;
  only tests that call them are. A generator's draw returns a value and the stream after
  it, or \<open>None\<close> for an invalid draw. \<open>Filter(g, pred)\<close> draws from \<open>g\<close> until \<open>pred\<close>
  holds, at most \<open>tries\<close> times (the retry budget, a policy constant of the engine); an
  exhausted budget makes the draw invalid. An execution of a property on one drawn value
  passes, fails, or is invalid when the draw is.
\<close>

fun Filter ::
  "nat \<Rightarrow> (bitStream \<Rightarrow> ('a \<times> bitStream) option) \<Rightarrow> ('a \<Rightarrow> bool) \<Rightarrow> bitStream \<Rightarrow> ('a \<times> bitStream) option" where
  "Filter 0 g pred s = None"
| "Filter (Suc tries) g pred s =
    (case g s of
       None \<Rightarrow> None
     | Some (v, s') \<Rightarrow> (if pred v then Some (v, s') else Filter tries g pred s'))"

text \<open>The values \<open>Filter\<close> draws from \<open>g\<close>, in order.\<close>

fun filterDraws ::
  "nat \<Rightarrow> (bitStream \<Rightarrow> ('a \<times> bitStream) option) \<Rightarrow> ('a \<Rightarrow> bool) \<Rightarrow> bitStream \<Rightarrow> 'a list" where
  "filterDraws 0 g pred s = []"
| "filterDraws (Suc tries) g pred s =
    (case g s of
       None \<Rightarrow> []
     | Some (v, s') \<Rightarrow> (if pred v then [v] else v # filterDraws tries g pred s'))"

datatype outcome = Passed | Invalid | Failed

definition runProperty ::
  "(bitStream \<Rightarrow> ('a \<times> bitStream) option) \<Rightarrow> ('a \<Rightarrow> bool) \<Rightarrow> bitStream \<Rightarrow> outcome" where
  "runProperty g prop s =
    (case g s of
       None \<Rightarrow> Invalid
     | Some (v, s') \<Rightarrow> (if prop v then Passed else Failed))"

text \<open>The generator of the test \<open>TestFilter\<close> draws an \<open>int\<close>, here one recorded word.\<close>

definition Ints :: "bitStream \<Rightarrow> (int \<times> bitStream) option" where
  "Ints s = (case drawWord s of None \<Rightarrow> None | Some (r, s') \<Rightarrow> Some (sint r, s'))"

section \<open>Reading a float as numbers\<close>

text \<open>
  The fields of a float64: the biased exponent and the 52 fraction bits of its magnitude.
  \<open>expClamped\<close> and \<open>signifTrunc\<close> are what \<open>ufloatParts\<close> keeps of them for a width of
  \<open>eb\<close> exponent bits and \<open>sb\<close> significand bits, \<open>fracBitsN\<close> is \<open>ufloatFracBits\<close> on
  numbers, and \<open>squeezed\<close> numbers the floats of that width in increasing order.
\<close>

definition biasedExp :: "float64 \<Rightarrow> nat" where
  "biasedExp f = unat (f AND mask 63) div 2 ^ 52"

definition fraction :: "float64 \<Rightarrow> nat" where
  "fraction f = unat (f AND mask 63) mod 2 ^ 52"

definition expClamped :: "nat \<Rightarrow> float64 \<Rightarrow> int" where
  "expClamped eb f =
    (let b = 2 ^ (eb - 1) - 1; e0 = int (biasedExp f) - 1023
     in if e0 < - b + 1 then - b + 1 else if b < e0 then b else e0)"

definition signifTrunc :: "nat \<Rightarrow> float64 \<Rightarrow> nat" where
  "signifTrunc sb f = fraction f div 2 ^ (52 - sb)"

definition fracBitsN :: "int \<Rightarrow> nat \<Rightarrow> nat" where
  "fracBitsN e sb = (if e \<le> 0 then sb else if e < int sb then sb - nat e else 0)"

definition squeezed :: "nat \<Rightarrow> nat \<Rightarrow> float64 \<Rightarrow> nat" where
  "squeezed eb sb f = nat (expClamped eb f + 1023) * 2 ^ sb + signifTrunc sb f"

text \<open>
  A normal number of the width: its exponent lies in the band
  \<open>[2 - 2^(eb-1), 2^(eb-1) - 1]\<close> that \<open>ufloatParts\<close> clamps to, and its significand has
  no bits beyond the first \<open>sb\<close>. Zeros, subnormals, infinities and NaNs are not normal.
\<close>

definition widthNormal :: "nat \<Rightarrow> nat \<Rightarrow> float64 \<Rightarrow> bool" where
  "widthNormal eb sb f =
    (1025 \<le> biasedExp f + 2 ^ (eb - 1) \<and> biasedExp f \<le> 1022 + 2 ^ (eb - 1) \<and>
     fraction f mod 2 ^ (52 - sb) = 0)"

definition isZero :: "float64 \<Rightarrow> bool" where
  "isZero f = (f AND mask 63 = 0)"

definition isInf32 :: "float32 \<Rightarrow> bool" where
  "isInf32 f = (f AND mask 31 = 0x7F800000)"

section \<open>Words as numbers\<close>

lemma unat_mask64: "k \<le> 64 \<Longrightarrow> unat (mask k :: 64 word) = 2 ^ k - 1"
proof -
  assume k: "k \<le> 64"
  have "uint (mask k :: 64 word) = mask k"
    using k by (simp only: uint_mask_eq) (simp add: min_def)
  then have "unat (mask k :: 64 word) = nat (mask k)"
    by (simp only: unat_eq_nat_uint)
  also have "\<dots> = mask k" by (simp only: nat_mask_eq)
  also have "\<dots> = 2 ^ k - 1" by (rule mask_eq_exp_minus_1)
  finally show ?thesis .
qed

lemma unat_and_mask: "unat ((w :: 64 word) AND mask k) = unat w mod 2 ^ k"
  by (simp add: take_bit_eq_mask [symmetric] unsigned_take_bit_eq take_bit_nat_def)

lemma unat_drop: "unat (drop_bit k (w :: 64 word)) = unat w div 2 ^ k"
  by (simp only: unat_drop_bit_eq drop_bit_nat_def)

lemma unat_push: "unat w * 2 ^ k < 2 ^ 64 \<Longrightarrow> unat (push_bit k (w :: 64 word)) = unat w * 2 ^ k"
  by (simp only: unsigned_push_bit_eq push_bit_nat_def take_bit_nat_def) simp

lemma word_less_2p_mask: "unat (a :: 64 word) < 2 ^ k \<Longrightarrow> a AND mask k = a"
  by (rule word_unat_eq_iff [THEN iffD2]) (simp add: unat_and_mask)

lemma or_push_disj:
  assumes "unat (a :: 64 word) < 2 ^ k"
  shows "push_bit k b OR a = push_bit k b + a"
proof -
  have "push_bit k b AND (a AND mask k) = 0"
    by (rule bit_eqI) (auto simp: bit_simps)
  then have "push_bit k b AND a = 0"
    using assms by (simp add: word_less_2p_mask)
  then show ?thesis by (simp add: disjunctive_add_eq_or)
qed

lemma unat_or_push:
  assumes "unat (a :: 64 word) < 2 ^ k" "unat b * 2 ^ k + unat a < 2 ^ 64"
  shows "unat (push_bit k b OR a) = unat b * 2 ^ k + unat a"
proof -
  have p: "unat (push_bit k b) = unat b * 2 ^ k"
    using assms(2) by (intro unat_push) arith
  have "unat (push_bit k b + a) = unat (push_bit k b) + unat a"
    using assms(2) p by (intro unat_add_lem [THEN iffD1]) simp
  then show ?thesis using p assms(1) by (simp only: or_push_disj)
qed

lemma sint_ucast_32: "sint (ucast (e :: 64 word) :: 32 word) = signed_take_bit 31 (sint e)"
proof -
  have "sint (ucast e :: 32 word) = signed_take_bit 31 (take_bit 32 (uint e))"
    by (simp add: sint_uint unsigned_ucast_eq)
  also have "\<dots> = signed_take_bit 31 (uint e)"
    by (simp add: signed_take_bit_take_bit)
  also have "\<dots> = signed_take_bit 31 (signed_take_bit 63 (uint e))"
    by simp
  also have "\<dots> = signed_take_bit 31 (sint e)"
    by (simp add: sint_uint)
  finally show ?thesis .
qed

lemma sint_ucast_down:
  assumes "- (2 ^ 31) \<le> sint (e :: 64 word)" "sint e < 2 ^ 31"
  shows "sint (ucast e :: 32 word) = sint e"
  using assms by (simp only: sint_ucast_32 signed_take_bit_int_eq_self)

lemma sint_eq_uint_small: "uint (w :: 'a::len word) < 2 ^ (LENGTH('a) - 1) \<Longrightarrow> sint w = uint w"
proof -
  assume a: "uint w < 2 ^ (LENGTH('a) - 1)"
  have "- (2 ^ (LENGTH('a) - 1)) \<le> (0::int)" by simp
  also have "0 \<le> uint w" by simp
  finally have "signed_take_bit (LENGTH('a) - 1) (uint w) = uint w"
    using a by (rule signed_take_bit_int_eq_self)
  then show ?thesis by (simp add: sint_uint)
qed

lemma uint_eq_sint_nonneg: "0 \<le> sint (w :: 'a::len word) \<Longrightarrow> uint w = sint w"
proof -
  assume a: "0 \<le> sint w"
  have "sint w < 2 ^ (LENGTH('a) - 1)" by (rule sint_lt)
  also have "\<dots> \<le> (2::int) ^ LENGTH('a)" by (rule power_increasing) simp_all
  finally have "take_bit LENGTH('a) (sint w) = sint w"
    using a by (simp add: take_bit_int_eq_self)
  then show ?thesis by (simp add: uint_sint)
qed

lemma sint_scast_up: "sint (scast (e :: 32 word) :: 64 word) = sint e"
  by (rule sint_up_scast) (simp add: is_up)

lemma sint_sub_32:
  assumes "- (2 ^ 31) \<le> sint a - sint b" "sint a - sint b < 2 ^ 31"
  shows "sint ((a :: 32 word) - b) = sint a - sint b"
  using assms by (simp add: sint_word_diff signed_take_bit_int_eq_self)

lemma sint_ucast_small:
  assumes "unat (w :: 64 word) < 2 ^ 31"
  shows "sint (ucast w :: 32 word) = int (unat w)"
proof -
  have "int (unat w) < int (2 ^ 31)" using assms by (simp only: of_nat_less_iff)
  then have u: "uint w < 2 ^ 31" by simp
  have "(2::int) ^ 31 \<le> 2 ^ (LENGTH(64) - 1)" by simp
  with u have "uint w < 2 ^ (LENGTH(64) - 1)" by (rule less_le_trans)
  then have s: "sint w = uint w" by (rule sint_eq_uint_small)
  have "- (2 ^ 31) \<le> (0 :: int)" by simp
  also have "0 \<le> uint w" by simp
  finally have "- (2 ^ 31) \<le> sint w" using s by simp
  moreover have "sint w < 2 ^ 31" using u s by simp
  ultimately have "sint (ucast w :: 32 word) = sint w" by (rule sint_ucast_down)
  then show ?thesis using s by simp
qed

lemma sint_mask_32: "k \<le> 30 \<Longrightarrow> sint (mask k :: 32 word) = 2 ^ k - 1"
proof -
  assume k: "k \<le> 30"
  have "uint (mask k :: 32 word) = mask k"
    using k by (simp only: uint_mask_eq) (simp add: min_def)
  also have "(mask k :: int) = 2 ^ k - 1" by (rule mask_eq_exp_minus_1)
  finally have m: "uint (mask k :: 32 word) = 2 ^ k - 1" .
  have "(2::int) ^ k \<le> 2 ^ 30" using k by (intro power_increasing) simp_all
  then have "uint (mask k :: 32 word) < 2 ^ (LENGTH(32) - 1)" using m by simp
  then have "sint (mask k :: 32 word) = uint (mask k :: 32 word)" by (rule sint_eq_uint_small)
  then show ?thesis using m by simp
qed

section \<open>Properties of the decomposition\<close>

lemma bit_signbit: "bit (push_bit 63 1 :: 64 word) n = (n = 63)"
  by (auto simp only: bit_push_bit_iff bit_1_iff possible_bit_word) auto

lemma fabs_fneg: "fneg f AND mask 63 = f AND mask 63"
  unfolding fneg_def
  by (rule bit_eqI) (simp only: bit_and_iff bit_xor_iff bit_mask_iff bit_signbit, auto)

text \<open>
  C9. \<open>ufloatParts\<close> does not depend on the sign of its argument: the float \<open>-f\<close> has the
  same exponent, integer significand and fractional significand as \<open>f\<close>, for every
  \<open>f\<close> (NaNs and infinities included) and all widths.
\<close>

theorem ufloatParts_fneg:
  "ufloatParts (fneg f) eb sb = ufloatParts f eb sb"
  by (simp add: ufloatParts_def fabs_fneg)

subsection \<open>The parts as numbers\<close>

lemma ufloatFracBits_unat:
  assumes "unat sb \<le> 52"
  shows "unat (ufloatFracBits e sb) = fracBitsN (sint e) (unat sb)"
proof (cases "sint e \<le> 0")
  case True
  then show ?thesis by (simp add: ufloatFracBits_def fracBitsN_def word_sle_eq)
next
  case False
  then have pos: "0 \<le> sint (scast e :: 64 word)" by (simp add: sint_scast_up)
  have "uint (scast e :: 64 word) = sint (scast e :: 64 word)"
    using pos by (rule uint_eq_sint_nonneg)
  then have u: "unat (scast e :: 64 word) = nat (sint e)"
    by (simp add: unat_eq_nat_uint sint_scast_up)
  show ?thesis
  proof (cases "sint e < int (unat sb)")
    case True
    then have "nat (sint e) < unat sb" using False by arith
    then have lt: "(scast e :: 64 word) < sb" using u by (simp add: word_less_nat_alt)
    then have "unat (sb - scast e) = unat sb - unat (scast e :: 64 word)"
      by (intro unat_sub) simp
    then show ?thesis using lt u False True
      by (simp add: ufloatFracBits_def fracBitsN_def word_sle_eq)
  next
    case ge: False
    then have "\<not> nat (sint e) < unat sb" using False by arith
    then have "\<not> (scast e :: 64 word) < sb" using u by (simp add: word_less_nat_alt)
    then show ?thesis using False ge
      by (simp add: ufloatFracBits_def fracBitsN_def word_sle_eq)
  qed
qed

lemma fracBitsN_le: "fracBitsN e sb \<le> sb"
  by (simp add: fracBitsN_def)

lemma biasedExp_less: "biasedExp f < 2048"
proof -
  have "unat (f AND mask 63) < 2 ^ 63" by (simp add: unat_and_mask)
  then have "unat (f AND mask 63) < 2048 * 2 ^ 52" by simp
  then show ?thesis unfolding biasedExp_def by (simp only: less_mult_imp_div_less)
qed

lemma sint_exp_field:
  "sint (ucast (drop_bit 52 (f AND mask 63 :: 64 word)) - ucast (mask 10 :: 64 word) :: 32 word)
     = int (biasedExp f) - 1023"
proof -
  have b: "unat (drop_bit 52 (f AND mask 63)) = biasedExp f"
    by (simp only: unat_drop biasedExp_def)
  have "biasedExp f < 2 ^ 31" using biasedExp_less [of f] by simp
  then have a: "sint (ucast (drop_bit 52 (f AND mask 63)) :: 32 word) = int (biasedExp f)"
    using b by (simp only: sint_ucast_small)
  have m: "sint (ucast (mask 10 :: 64 word) :: 32 word) = 1023"
    by (simp add: ucast_mask_eq sint_mask_32)
  show ?thesis using a m biasedExp_less [of f] by (simp add: sint_sub_32)
qed


lemma bias_const: "bitmask64 (float64ExpBits - 1) = mask 10"
  by (simp add: bitmask64_def float64ExpBits_def)

lemma signif_const: "unat float64SignifBits = 52" "bitmask64 float64SignifBits = mask 52"
  by (simp_all add: bitmask64_def float64SignifBits_def)

lemma sint_width_bias:
  assumes "2 \<le> unat eb" "unat eb \<le> 11"
  shows "sint (ucast (bitmask64 (eb - 1)) :: 32 word) = 2 ^ (unat eb - 1) - 1"
proof -
  have "eb \<noteq> 0" using assms(1) by auto
  then have "unat (eb - 1) = unat eb - 1" by (rule unat_minus_one)
  then have "(ucast (bitmask64 (eb - 1)) :: 32 word) = mask (unat eb - 1)"
    using assms(2) by (simp add: bitmask64_def ucast_mask_eq min_def)
  then show ?thesis using assms(2) by (simp add: sint_mask_32)
qed

lemma pow_eb_bounds:
  assumes "2 \<le> (k::nat)" "k \<le> 11"
  shows "(2::int) \<le> 2 ^ (k - 1)" "(2::int) ^ (k - 1) \<le> 1024"
proof -
  have "(2::int) ^ 1 \<le> 2 ^ (k - 1)" using assms(1) by (intro power_increasing) simp_all
  then show "(2::int) \<le> 2 ^ (k - 1)" by simp
  have "(2::int) ^ (k - 1) \<le> 2 ^ 10" using assms(2) by (intro power_increasing) simp_all
  then show "(2::int) ^ (k - 1) \<le> 1024" by simp
qed

lemma ufloatParts_exp:
  assumes "2 \<le> unat eb" "unat eb \<le> 11"
  shows "sint (fst (ufloatParts f eb sb)) = expClamped (unat eb) f"
proof -
  define e0 :: "32 word" where
    "e0 = ucast (drop_bit 52 (f AND mask 63 :: 64 word)) - ucast (mask 10 :: 64 word)"
  define b :: "32 word" where "b = ucast (bitmask64 (eb - 1))"
  have e0: "sint e0 = int (biasedExp f) - 1023" unfolding e0_def by (rule sint_exp_field)
  have b: "sint b = 2 ^ (unat eb - 1) - 1" unfolding b_def using assms by (rule sint_width_bias)
  note pw = pow_eb_bounds [OF assms]
  have "sint (1 - b) = sint (1 :: 32 word) - sint b"
    using b pw by (intro sint_sub_32) simp_all
  then have nb: "sint (1 - b) = 1 - sint b" by simp
  have "fst (ufloatParts f eb sb) = (if e0 <s - b + 1 then - b + 1 else if b <s e0 then b else e0)"
    by (simp add: ufloatParts_def Let_def bias_const signif_const e0_def b_def)
  then show ?thesis
    using e0 b nb by (simp add: expClamped_def Let_def word_sless_alt)
qed

lemma expClamped_range:
  assumes "2 \<le> eb" "eb \<le> 11"
  shows "- 1022 \<le> expClamped eb f" "expClamped eb f \<le> 1023"
    "2 - 2 ^ (eb - 1) \<le> expClamped eb f" "expClamped eb f \<le> 2 ^ (eb - 1) - 1"
  using pow_eb_bounds [OF assms] by (auto simp: expClamped_def Let_def)

lemma ufloatParts_signif:
  assumes "unat sb \<le> 52" "ufloatParts f eb sb = (e, si, sf)"
  shows "unat si = signifTrunc (unat sb) f div 2 ^ fracBitsN (sint e) (unat sb)"
    and "unat sf = signifTrunc (unat sb) f mod 2 ^ fracBitsN (sint e) (unat sb)"
proof -
  define s :: "64 word" where
    "s = drop_bit (unat (float64SignifBits - sb)) ((f AND mask 63) AND bitmask64 float64SignifBits)"
  have "sb \<le> float64SignifBits"
    using assms(1) by (simp add: word_le_nat_alt signif_const)
  then have "unat (float64SignifBits - sb) = 52 - unat sb"
    by (simp add: unat_sub signif_const)
  then have s: "unat s = signifTrunc (unat sb) f"
    by (simp only: s_def signif_const unat_drop unat_and_mask signifTrunc_def fraction_def)
  have n: "unat (ufloatFracBits e sb) = fracBitsN (sint e) (unat sb)"
    using assms(1) by (rule ufloatFracBits_unat)
  have "si = drop_bit (unat (ufloatFracBits e sb)) s" "sf = s AND bitmask64 (ufloatFracBits e sb)"
    using assms(2) by (auto simp: ufloatParts_def Let_def s_def)
  then show "unat si = signifTrunc (unat sb) f div 2 ^ fracBitsN (sint e) (unat sb)"
    and "unat sf = signifTrunc (unat sb) f mod 2 ^ fracBitsN (sint e) (unat sb)"
    using s n by (simp_all add: unat_drop unat_and_mask bitmask64_def)
qed

lemma signifTrunc_less: "sb \<le> 52 \<Longrightarrow> signifTrunc sb f < 2 ^ sb"
proof -
  assume sb: "sb \<le> 52"
  have "fraction f < 2 ^ 52" by (simp add: fraction_def)
  also have "(2::nat) ^ 52 = 2 ^ sb * 2 ^ (52 - sb)"
    using sb by (simp add: power_add [symmetric])
  finally show ?thesis
    unfolding signifTrunc_def by (simp only: less_mult_imp_div_less)
qed

section \<open>The doubling loop\<close>

lemma shiftLoop_in_range:
  "sfMin \<le> sf \<Longrightarrow> sf \<le> sfMax \<Longrightarrow>
     sfMin \<le> shiftLoop n sf sfMin sfMax \<and> shiftLoop n sf sfMin sfMax \<le> sfMax"
  by (induction n arbitrary: sf) (auto simp: Let_def not_less)

lemma shiftLoop_zero: "shiftLoop n 0 sfMin sfMax = 0"
  by (induction n) (auto simp: Let_def)

lemma shiftLoop_single: "shiftLoop n sf sf sf = sf"
  by (induction n) (auto simp: Let_def not_less)

lemma push_bit_1_wrap: "(push_bit 1 sf < (sf :: 64 word)) = (2 ^ 64 \<le> 2 * unat sf)"
proof (cases "2 * unat sf < 2 ^ 64")
  case True
  then have "unat (push_bit 1 sf) = unat sf * 2 ^ 1" by (intro unat_push) simp
  then show ?thesis using True by (simp add: word_less_nat_alt)
next
  case False
  have "unat (push_bit 1 sf) = (unat sf * 2) mod 2 ^ 64"
    by (simp only: unsigned_push_bit_eq push_bit_nat_def take_bit_nat_def) simp
  also have "\<dots> = unat sf * 2 - 2 ^ 64"
  proof -
    have "unat sf < 2 ^ 64" using unsigned_less [of sf, where 'a=nat] by simp
    then have "unat sf * 2 - 2 ^ 64 < 2 ^ 64" by simp
    then have "(unat sf * 2 - 2 ^ 64) mod 2 ^ 64 = unat sf * 2 - 2 ^ 64" by (rule mod_less)
    moreover have "(unat sf * 2) mod 2 ^ 64 = (unat sf * 2 - 2 ^ 64) mod 2 ^ 64"
      using False by (simp add: le_mod_geq)
    ultimately show ?thesis by simp
  qed
  finally have "unat (push_bit 1 sf) = unat sf * 2 - 2 ^ 64" .
  moreover have "unat sf < 2 ^ 64" using unsigned_less [of sf, where 'a=nat] by simp
  ultimately show ?thesis using False by (simp add: word_less_nat_alt)
qed

lemma shiftLoop_shift:
  "\<exists>k\<le>n. shiftLoop n sf sfMin sfMax = push_bit k sf \<and> unat sf * 2 ^ k < 2 ^ 64 \<and>
     (k < n \<longrightarrow> push_bit (Suc k) sf < sfMin \<or> sfMax < push_bit (Suc k) sf \<or>
        2 ^ 64 \<le> unat sf * 2 ^ Suc k)"
proof (induction n arbitrary: sf)
  case 0
  have "unat sf < 2 ^ 64" using unsigned_less [of sf, where 'a=nat] by simp
  then show ?case by simp
next
  case (Suc n)
  have lt: "unat sf < 2 ^ 64" using unsigned_less [of sf, where 'a=nat] by simp
  show ?case
  proof (cases "push_bit 1 sf < sfMin \<or> sfMax < push_bit 1 sf \<or> push_bit 1 sf < sf")
    case True
    then have "shiftLoop (Suc n) sf sfMin sfMax = push_bit 0 sf" by (simp add: Let_def)
    moreover have "push_bit (Suc 0) sf < sfMin \<or> sfMax < push_bit (Suc 0) sf \<or>
        2 ^ 64 \<le> unat sf * 2 ^ Suc 0"
    proof -
      have "push_bit 1 sf < sf \<Longrightarrow> 2 ^ 64 \<le> unat sf * 2 ^ Suc 0"
        by (simp only: push_bit_1_wrap) simp
      then show ?thesis using True by (auto simp only: One_nat_def)
    qed
    ultimately show ?thesis using lt by (intro exI [of _ 0]) simp
  next
    case False
    then have "\<not> push_bit 1 sf < sf" by blast
    then have nowrap: "2 * unat sf < 2 ^ 64" by (simp only: push_bit_1_wrap not_le)
    then have u: "unat (push_bit 1 sf) = unat sf * 2" using unat_push [of sf 1] by simp
    from Suc.IH [of "push_bit 1 sf"] obtain k where k: "k \<le> n"
      "shiftLoop n (push_bit 1 sf) sfMin sfMax = push_bit k (push_bit 1 sf)"
      "unat (push_bit 1 sf) * 2 ^ k < 2 ^ 64"
      "k < n \<longrightarrow> push_bit (Suc k) (push_bit 1 sf) < sfMin \<or> sfMax < push_bit (Suc k) (push_bit 1 sf) \<or>
        2 ^ 64 \<le> unat (push_bit 1 sf) * 2 ^ Suc k"
      by blast
    have pp: "\<And>j. push_bit j (push_bit 1 sf) = push_bit (Suc j) sf"
      by (simp add: push_bit_eq_mult)
    have "shiftLoop (Suc n) sf sfMin sfMax = push_bit (Suc k) sf"
      using False k(2) by (simp add: Let_def pp)
    moreover have "unat sf * 2 ^ Suc k < 2 ^ 64" using k(3) u by (simp add: mult.assoc)
    moreover have "Suc k < Suc n \<longrightarrow> push_bit (Suc (Suc k)) sf < sfMin \<or>
        sfMax < push_bit (Suc (Suc k)) sf \<or> 2 ^ 64 \<le> unat sf * 2 ^ Suc (Suc k)"
      using k(4) u by (simp add: pp mult.assoc)
    ultimately show ?thesis using k(1) by (intro exI [of _ "Suc k"]) simp
  qed
qed

lemma genUfloatRange_InrD:
  assumes r: "genUfloatRange X s lo hi eb sb = Inr (v, s')"
    and pmin: "ufloatParts lo eb sb = (minExp, minI, minF)"
    and pmax: "ufloatParts hi eb sb = (maxExp, maxI, maxF)"
  shows "\<exists>e si sf w sa sa' sb1 sb1' sc sc' siMin siMax sfMin sfMax.
    genIntRange X sa (scast minExp) (scast maxExp) True = Some (e, sa') \<and>
    (if minExp = maxExp then (minI, maxI)
     else if ucast e = minExp then (minI, bitmask64 (sb - ufloatFracBits (ucast e) sb))
     else if ucast e = maxExp then (0, maxI)
     else (0, bitmask64 (sb - ufloatFracBits (ucast e) sb))) = (siMin, siMax) \<and>
    genUintRange X sb1 siMin siMax False = Some (si, sb1') \<and>
    (if minExp = maxExp \<and> minI = maxI then (minF, maxF)
     else if ucast e = minExp \<and> si = minI then (minF, bitmask64 (ufloatFracBits (ucast e) sb))
     else if ucast e = maxExp \<and> si = maxI then (0, maxF)
     else (0, bitmask64 (ufloatFracBits (ucast e) sb))) = (sfMin, sfMax) \<and>
    genUintRangeWidth X sc sfMin sfMax True = Some ((sf, w), sc') \<and>
    push_bit 52 (e + mask 10) OR
        push_bit (unat (float64SignifBits - sb))
          (push_bit (unat (ufloatFracBits (ucast e) sb)) si OR
           shiftLoop (nat (sint (ufloatFracBits (ucast e) sb - w))) sf sfMin sfMax) = v"
proof -
  have pre: "fge lo fzero" "fle lo hi"
    using r by (auto simp: genUfloatRange_def split: if_splits)
  show ?thesis
    using r
    unfolding genUfloatRange_def
    apply (simp only: pre simp_thms if_False pmin pmax prod.case Let_def bias_const signif_const
        split: option.splits prod.splits)
    apply (simp_all only: sum.distinct sum.inject prod.inject simp_thms)
    apply (elim conjE)
    apply (intro exI conjI)
    apply assumption+
    done
qed

section \<open>The value drawn lies between the squeezed bounds\<close>

lemma lex_ge:
  fixes a b p x y :: nat
  assumes "b < p" "a < x \<or> (a = x \<and> b \<le> y)"
  shows "a * p + b \<le> x * p + y"
proof (cases "a < x")
  case True
  then have "Suc a * p \<le> x * p" by (intro mult_le_mono1) simp
  then show ?thesis using assms(1) by simp
next
  case False
  then show ?thesis using assms(2) by simp
qed

lemma lex_le:
  fixes c d p x y :: nat
  assumes "y < p" "x < c \<or> (x = c \<and> y \<le> d)"
  shows "x * p + y \<le> c * p + d"
  using lex_ge [OF assms(1), of x c d] assms(2) by auto

lemma lex_lt:
  fixes p q x y :: nat
  assumes "x < q" "y < p"
  shows "x * p + y < q * p"
proof -
  have "Suc x * p \<le> q * p" using assms(1) by (intro mult_le_mono1) simp
  then show ?thesis using assms(2) by simp
qed

lemma div_less_pow:
  fixes s n m :: nat
  assumes "n \<le> m" "s < 2 ^ m"
  shows "s div 2 ^ n < 2 ^ (m - n)"
proof -
  have "(2::nat) ^ m = 2 ^ (m - n) * 2 ^ n" using assms(1) by (simp add: power_add [symmetric])
  then show ?thesis using assms(2) by (simp only: less_mult_imp_div_less)
qed

lemma signif_bounds:
  fixes N SB Smin Smax si sf :: nat and E Emin Emax :: int
  assumes N: "N \<le> SB" and Smin: "Smin < 2 ^ SB" and Smax: "Smax < 2 ^ SB"
    and E: "Emin \<le> E" "E \<le> Emax"
    and siLo: "(if Emin = Emax then Smin div 2 ^ N else if E = Emin then Smin div 2 ^ N else 0) \<le> si"
    and siHi: "si \<le> (if Emin = Emax then Smax div 2 ^ N
                     else if E = Emin then 2 ^ (SB - N) - 1
                     else if E = Emax then Smax div 2 ^ N else 2 ^ (SB - N) - 1)"
    and sfLo: "(if Emin = Emax \<and> Smin div 2 ^ N = Smax div 2 ^ N then Smin mod 2 ^ N
               else if E = Emin \<and> si = Smin div 2 ^ N then Smin mod 2 ^ N else 0) \<le> sf"
    and sfHi: "sf \<le> (if Emin = Emax \<and> Smin div 2 ^ N = Smax div 2 ^ N then Smax mod 2 ^ N
                     else if E = Emin \<and> si = Smin div 2 ^ N then 2 ^ N - 1
                     else if E = Emax \<and> si = Smax div 2 ^ N then Smax mod 2 ^ N else 2 ^ N - 1)"
  shows "sf < 2 ^ N" and "si * 2 ^ N + sf < 2 ^ SB"
    and "E = Emin \<Longrightarrow> Smin \<le> si * 2 ^ N + sf"
    and "E = Emax \<Longrightarrow> si * 2 ^ N + sf \<le> Smax"
proof -
  have dmin: "Smin div 2 ^ N < 2 ^ (SB - N)" and dmax: "Smax div 2 ^ N < 2 ^ (SB - N)"
    using N Smin Smax by (simp_all add: div_less_pow)
  have mmin: "Smin mod 2 ^ N < 2 ^ N" and mmax: "Smax mod 2 ^ N < 2 ^ N" by simp_all
  have one: "(2::nat) ^ N - 1 < 2 ^ N" "(2::nat) ^ (SB - N) - 1 < 2 ^ (SB - N)" by simp_all
  have "(if Emin = Emax \<and> Smin div 2 ^ N = Smax div 2 ^ N then Smax mod 2 ^ N
         else if E = Emin \<and> si = Smin div 2 ^ N then 2 ^ N - 1
         else if E = Emax \<and> si = Smax div 2 ^ N then Smax mod 2 ^ N else 2 ^ N - 1) < 2 ^ N"
    by simp
  with sfHi show sf: "sf < 2 ^ N" by (rule le_less_trans)
  have "(if Emin = Emax then Smax div 2 ^ N
         else if E = Emin then 2 ^ (SB - N) - 1
         else if E = Emax then Smax div 2 ^ N else 2 ^ (SB - N) - 1) < 2 ^ (SB - N)"
    using dmax by simp
  with siHi have si: "si < 2 ^ (SB - N)" by (rule le_less_trans)
  have "si * 2 ^ N + sf < 2 ^ (SB - N) * 2 ^ N" using si sf by (rule lex_lt)
  also have "\<dots> = 2 ^ SB" using N by (simp add: power_add [symmetric])
  finally show "si * 2 ^ N + sf < 2 ^ SB" .
  show "Smin \<le> si * 2 ^ N + sf" if "E = Emin"
  proof -
    have a: "Smin div 2 ^ N \<le> si" using siLo that by (auto split: if_splits)
    have "Smin div 2 ^ N < si \<or> (Smin div 2 ^ N = si \<and> Smin mod 2 ^ N \<le> sf)"
    proof (cases "Smin div 2 ^ N = si")
      case True
      then have "Smin mod 2 ^ N \<le> sf" using sfLo that by (auto split: if_splits)
      then show ?thesis using True by simp
    next
      case False
      then show ?thesis using a by simp
    qed
    from lex_ge [OF mmin this] show ?thesis by (simp add: div_mult_mod_eq)
  qed
  show "si * 2 ^ N + sf \<le> Smax" if "E = Emax"
  proof -
    have a: "si \<le> Smax div 2 ^ N" using siHi that E dmax by (auto split: if_splits)
    have "si < Smax div 2 ^ N \<or> (si = Smax div 2 ^ N \<and> sf \<le> Smax mod 2 ^ N)"
    proof (cases "si = Smax div 2 ^ N")
      case True
      then have "sf \<le> Smax mod 2 ^ N" using sfHi that E
        by (auto split: if_splits)
      then show ?thesis using True by simp
    next
      case False
      then show ?thesis using a by simp
    qed
    from lex_le [OF sf this] show ?thesis by (simp add: div_mult_mod_eq)
  qed
qed

lemma unat_bitmask64: "unat n \<le> 64 \<Longrightarrow> unat (bitmask64 n) = 2 ^ unat n - 1"
  by (simp add: bitmask64_def unat_mask64)

lemma pow52_split: "sb \<le> 52 \<Longrightarrow> (2::nat) ^ 52 = 2 ^ sb * 2 ^ (52 - sb)"
  by (simp add: power_add [symmetric])

lemma unat_biased:
  assumes "- 1022 \<le> sint (e :: 64 word)" "sint e \<le> 1023"
  shows "unat (e + mask 10) = nat (sint e + 1023)"
proof -
  have m: "sint (mask 10 :: 64 word) = 1023" by (simp add: mask_eq_exp_minus_1)
  have "sint (e + mask 10) = sint e + 1023"
    using assms by (simp add: sint_word_add m signed_take_bit_int_eq_self)
  moreover have "0 \<le> sint (e + mask 10)" using calculation assms by simp
  then have "uint (e + mask 10) = sint (e + mask 10)" by (rule uint_eq_sint_nonneg)
  ultimately show ?thesis by (simp add: unat_eq_nat_uint)
qed


lemma sint_eq_iff: "((a :: 32 word) = b) = (sint a = sint b)"
  by (auto intro: signed_word_eqI)

lemma genUfloatRange_squeezed:
  assumes X: "rangeContract X"
    and eb: "2 \<le> unat eb" "unat eb \<le> 11" and sb: "unat sb \<le> 52"
    and r: "genUfloatRange X s lo hi eb sb = Inr (v, s')"
  shows "\<exists>z. unat v = z * 2 ^ (52 - unat sb) \<and>
           squeezed (unat eb) (unat sb) lo \<le> z \<and> z \<le> squeezed (unat eb) (unat sb) hi"
proof -
  define EB SB where "EB = unat eb" and "SB = unat sb"
  obtain minExp minI minF where pmin: "ufloatParts lo eb sb = (minExp, minI, minF)"
    by (cases "ufloatParts lo eb sb") auto
  obtain maxExp maxI maxF where pmax: "ufloatParts hi eb sb = (maxExp, maxI, maxF)"
    by (cases "ufloatParts hi eb sb") auto
  define Emin Emax where "Emin = expClamped EB lo" and "Emax = expClamped EB hi"
  define Smin Smax where "Smin = signifTrunc SB lo" and "Smax = signifTrunc SB hi"
  have emin: "sint minExp = Emin" and emax: "sint maxExp = Emax"
    using ufloatParts_exp [OF eb, of lo sb] ufloatParts_exp [OF eb, of hi sb] pmin pmax
    by (simp_all add: Emin_def Emax_def EB_def)
  have rmin: "- 1022 \<le> Emin" "Emin \<le> 1023" and rmax: "- 1022 \<le> Emax" "Emax \<le> 1023"
    using expClamped_range [of EB] eb by (simp_all add: Emin_def Emax_def EB_def)
  have Sless: "Smin < 2 ^ SB" "Smax < 2 ^ SB"
    using sb by (simp_all add: Smin_def Smax_def SB_def signifTrunc_less)
  from genUfloatRange_InrD [OF r pmin pmax]
  obtain e si sf w sa sa' sb1 sb1' sc sc' siMin siMax sfMin sfMax where
    g1: "genIntRange X sa (scast minExp) (scast maxExp) True = Some (e, sa')" and
    selI: "(if minExp = maxExp then (minI, maxI)
     else if ucast e = minExp then (minI, bitmask64 (sb - ufloatFracBits (ucast e) sb))
     else if ucast e = maxExp then (0, maxI)
     else (0, bitmask64 (sb - ufloatFracBits (ucast e) sb))) = (siMin, siMax)" and
    g2: "genUintRange X sb1 siMin siMax False = Some (si, sb1')" and
    selF: "(if minExp = maxExp \<and> minI = maxI then (minF, maxF)
     else if ucast e = minExp \<and> si = minI then (minF, bitmask64 (ufloatFracBits (ucast e) sb))
     else if ucast e = maxExp \<and> si = maxI then (0, maxF)
     else (0, bitmask64 (ufloatFracBits (ucast e) sb))) = (sfMin, sfMax)" and
    g3: "genUintRangeWidth X sc sfMin sfMax True = Some ((sf, w), sc')" and
    v: "push_bit 52 (e + mask 10) OR
        push_bit (unat (float64SignifBits - sb))
          (push_bit (unat (ufloatFracBits (ucast e) sb)) si OR
           shiftLoop (nat (sint (ufloatFracBits (ucast e) sb - w))) sf sfMin sfMax) = v"
    by blast
  define E where "E = sint e"
  define N where "N = fracBitsN E SB"
  define sf' where "sf' = shiftLoop (nat (sint (ufloatFracBits (ucast e) sb - w))) sf sfMin sfMax"
  \<comment> \<open>the exponent drawn\<close>
  have "scast minExp \<le>s e \<and> e \<le>s scast maxExp"
    using X g1 unfolding rangeContract_def by blast
  then have E: "Emin \<le> E" "E \<le> Emax"
    by (simp_all add: word_sle_eq sint_scast_up emin emax E_def)
  have e32: "sint (ucast e :: 32 word) = E"
    unfolding E_def using E rmin rmax by (intro sint_ucast_down) (simp_all add: E_def)
  have eqmin: "((ucast e :: 32 word) = minExp) = (E = Emin)"
    and eqmax: "((ucast e :: 32 word) = maxExp) = (E = Emax)"
    and eqmm: "(minExp = maxExp) = (Emin = Emax)"
    by (simp_all add: sint_eq_iff e32 emin emax)
  \<comment> \<open>the number of fractional bits\<close>
  have fb: "unat (ufloatFracBits (ucast e) sb) = N"
    using sb by (simp add: ufloatFracBits_unat e32 N_def SB_def)
  have NSB: "N \<le> SB" by (simp add: N_def fracBitsN_le)
  have "ufloatFracBits (ucast e) sb \<le> sb"
    using NSB fb by (simp add: word_le_nat_alt SB_def)
  then have "unat (sb - ufloatFracBits (ucast e) sb) = SB - N"
    using fb by (simp add: unat_sub SB_def)
  then have mI: "unat (bitmask64 (sb - ufloatFracBits (ucast e) sb)) = 2 ^ (SB - N) - 1"
    using sb by (simp add: unat_bitmask64 SB_def)
  have mF: "unat (bitmask64 (ufloatFracBits (ucast e) sb)) = 2 ^ N - 1"
    using fb NSB sb by (simp add: unat_bitmask64 SB_def)
  \<comment> \<open>the parts of the bounds\<close>
  have pmin': "E = Emin \<Longrightarrow> unat minI = Smin div 2 ^ N \<and> unat minF = Smin mod 2 ^ N"
    using ufloatParts_signif [OF sb pmin] by (simp add: emin N_def Smin_def SB_def)
  have pmax': "E = Emax \<Longrightarrow> unat maxI = Smax div 2 ^ N \<and> unat maxF = Smax mod 2 ^ N"
    using ufloatParts_signif [OF sb pmax] by (simp add: emax N_def Smax_def SB_def)
  have mm: "Emin = Emax \<Longrightarrow> E = Emin \<and> E = Emax" using E by simp
  \<comment> \<open>the significand drawn\<close>
  have si: "siMin \<le> si \<and> si \<le> siMax" using X g2 unfolding rangeContract_def by blast
  have sfr: "sfMin \<le> sf \<and> sf \<le> sfMax" using X g3 unfolding rangeContract_def by blast
  then have sf'r: "sfMin \<le> sf' \<and> sf' \<le> sfMax"
    unfolding sf'_def by (intro shiftLoop_in_range) simp_all
  have siLo: "(if Emin = Emax then Smin div 2 ^ N else if E = Emin then Smin div 2 ^ N else 0)
      \<le> unat si"
    using si selI pmin' mm by (auto simp: eqmin eqmax eqmm word_le_nat_alt split: if_splits)
  have siHi: "unat si \<le> (if Emin = Emax then Smax div 2 ^ N
                     else if E = Emin then 2 ^ (SB - N) - 1
                     else if E = Emax then Smax div 2 ^ N else 2 ^ (SB - N) - 1)"
    using si selI pmax' mm mI by (auto simp: eqmin eqmax eqmm word_le_nat_alt split: if_splits)
  have eqI: "E = Emin \<Longrightarrow> (si = minI) = (unat si = Smin div 2 ^ N)"
    "E = Emax \<Longrightarrow> (si = maxI) = (unat si = Smax div 2 ^ N)"
    "Emin = Emax \<Longrightarrow> (minI = maxI) = (Smin div 2 ^ N = Smax div 2 ^ N)"
    using pmin' pmax' mm by (auto simp: word_unat_eq_iff)
  have sfLo: "(if Emin = Emax \<and> Smin div 2 ^ N = Smax div 2 ^ N then Smin mod 2 ^ N
               else if E = Emin \<and> unat si = Smin div 2 ^ N then Smin mod 2 ^ N else 0) \<le> unat sf'"
    using sf'r selF pmin' mm eqI
    by (auto simp: eqmin eqmax eqmm word_le_nat_alt split: if_splits)
  have sfHi: "unat sf' \<le> (if Emin = Emax \<and> Smin div 2 ^ N = Smax div 2 ^ N then Smax mod 2 ^ N
                     else if E = Emin \<and> unat si = Smin div 2 ^ N then 2 ^ N - 1
                     else if E = Emax \<and> unat si = Smax div 2 ^ N then Smax mod 2 ^ N else 2 ^ N - 1)"
    using sf'r selF pmax' mm eqI mF
    by (auto simp: eqmin eqmax eqmm word_le_nat_alt split: if_splits)
  define S where "S = unat si * 2 ^ N + unat sf'"
  note sbnd = signif_bounds [OF NSB Sless E siLo siHi sfLo sfHi, folded S_def]
  \<comment> \<open>the bit pattern returned\<close>
  have p64: "(2::nat) ^ SB \<le> 2 ^ 52"
    using sb by (intro power_increasing) (simp_all add: SB_def)
  have S64: "unat si * 2 ^ N + unat sf' < 2 ^ 64"
    using sbnd(2) p64 by (simp add: S_def)
  have inner: "unat (push_bit N si OR sf') = S"
    unfolding S_def using sbnd(1) S64 by (rule unat_or_push)
  have shift: "unat (float64SignifBits - sb) = 52 - SB"
  proof -
    have "sb \<le> float64SignifBits" using sb by (simp add: word_le_nat_alt signif_const)
    then show ?thesis by (simp add: unat_sub signif_const SB_def)
  qed
  have p52: "(2::nat) ^ 52 = 2 ^ SB * 2 ^ (52 - SB)"
    using sb by (intro pow52_split) (simp add: SB_def)
  have "S * 2 ^ (52 - SB) < 2 ^ SB * 2 ^ (52 - SB)" using sbnd(2) by simp
  then have mid52: "S * 2 ^ (52 - SB) < 2 ^ 52" by (simp only: p52)
  then have "unat (push_bit N si OR sf') * 2 ^ (52 - SB) < 2 ^ 64" using inner by simp
  then have mid: "unat (push_bit (52 - SB) (push_bit N si OR sf')) = S * 2 ^ (52 - SB)"
    using inner by (simp only: unat_push)
  define A where "A = nat (E + 1023)"
  have A: "unat (e + mask 10) = A"
    unfolding A_def E_def using E rmin rmax by (intro unat_biased) (simp_all add: E_def)
  have Ale: "A \<le> 2046" using E rmax by (simp add: A_def)
  then have "A * 2 ^ 52 \<le> 2046 * 2 ^ 52" by (rule mult_le_mono1)
  then have "A * 2 ^ 52 + S * 2 ^ (52 - SB) < 2 ^ 64" using mid52 by simp
  then have tot: "unat (e + mask 10) * 2 ^ 52 + unat (push_bit (52 - SB) (push_bit N si OR sf')) < 2 ^ 64"
    by (simp only: A mid)
  have "unat (push_bit (52 - SB) (push_bit N si OR sf')) < 2 ^ 52" using mid mid52 by simp
  from unat_or_push [OF this tot]
  have "unat v = A * 2 ^ 52 + S * 2 ^ (52 - SB)"
    using v by (simp only: A mid shift fb sf'_def [symmetric])
  then have uv: "unat v = (A * 2 ^ SB + S) * 2 ^ (52 - SB)"
    by (simp only: p52 add_mult_distrib mult.assoc)
  \<comment> \<open>its place between the bounds\<close>
  have lo: "nat (Emin + 1023) * 2 ^ SB + Smin \<le> A * 2 ^ SB + S"
  proof (rule lex_ge [OF Sless(1)])
    show "nat (Emin + 1023) < A \<or> nat (Emin + 1023) = A \<and> Smin \<le> S"
      using E rmin sbnd(3) by (cases "E = Emin") (auto simp: A_def)
  qed
  have hi: "A * 2 ^ SB + S \<le> nat (Emax + 1023) * 2 ^ SB + Smax"
  proof (rule lex_le [OF sbnd(2)])
    show "A < nat (Emax + 1023) \<or> A = nat (Emax + 1023) \<and> S \<le> Smax"
      using E rmin sbnd(4) by (cases "E = Emax") (auto simp: A_def)
  qed
  show ?thesis
    using uv lo hi
    unfolding squeezed_def Emin_def Emax_def Smin_def Smax_def EB_def SB_def
    by blast
qed

section \<open>Order of floats\<close>

lemma isNaN_fneg: "isNaN (fneg f) = isNaN f"
  by (simp add: isNaN_def fabs_fneg)

lemma bit63_fneg: "bit (fneg f) 63 = (\<not> bit f 63)"
  unfolding fneg_def by (simp only: bit_xor_iff bit_signbit) simp

lemma fkey_fneg: "fkey (fneg f) = - fkey f"
  by (simp add: fkey_def fabs_fneg bit63_fneg)

lemma fneg_fneg: "fneg (fneg f) = f"
  unfolding fneg_def by (simp only: xor.assoc bit.xor_self xor.right_neutral)

lemma fzero_facts: "\<not> isNaN fzero" "fkey fzero = 0"
  by (simp_all add: isNaN_def fkey_def fzero_def)

lemma fge_fzero: "fge f fzero = (\<not> isNaN f \<and> 0 \<le> fkey f)"
  by (auto simp: fge_def fle_def fzero_facts)

lemma fle_fzero: "fle f fzero = (\<not> isNaN f \<and> fkey f \<le> 0)"
  by (auto simp: fle_def fzero_facts)

lemma fle_fneg: "fle (fneg a) (fneg b) = fle b a"
  by (auto simp: fle_def isNaN_fneg fkey_fneg)

lemma genUfloatRange_assert:
  "(genUfloatRange X s lo hi eb sb = Inl (AssertionFailed m)) \<Longrightarrow> \<not> (fge lo fzero \<and> fle lo hi)"
  unfolding genUfloatRange_def
  by (auto simp: Let_def split: if_splits option.splits prod.splits)

lemma unat_fabs_less: "unat (f AND mask 63 :: 64 word) < 2 ^ 63"
  by (simp add: unat_and_mask)

lemma fkey_unat:
  "fkey f = (if bit f 63 then - int (unat (f AND mask 63)) else int (unat (f AND mask 63)))"
  by (simp add: fkey_def)

lemma isNaN_unat: "isNaN f = (2047 * 2 ^ 52 < unat (f AND mask 63))"
  by (simp add: isNaN_def word_less_nat_alt)

lemma magnitude_word:
  assumes "unat (v :: 64 word) < 2 ^ 63"
  shows "v AND mask 63 = v" and "\<not> bit v 63"
proof -
  show m: "v AND mask 63 = v" using assms by (rule word_less_2p_mask)
  have "\<not> bit (v AND mask 63) 63" by (simp add: bit_simps)
  with m show "\<not> bit v 63" by metis
qed

lemma fields_sum: "biasedExp f * 2 ^ 52 + fraction f = unat (f AND mask 63)"
  by (simp add: biasedExp_def fraction_def)

lemma squeezed_normal:
  assumes "2 \<le> eb" "eb \<le> 11" "sb \<le> 52" "widthNormal eb sb f"
  shows "squeezed eb sb f * 2 ^ (52 - sb) = unat (f AND mask 63)"
proof -
  have w: "1025 \<le> biasedExp f + 2 ^ (eb - 1)" "biasedExp f \<le> 1022 + 2 ^ (eb - 1)"
    "fraction f mod 2 ^ (52 - sb) = 0"
    using assms(4) by (simp_all add: widthNormal_def)
  have "int 1025 \<le> int (biasedExp f + 2 ^ (eb - 1))" using w(1) by (simp only: of_nat_le_iff)
  then have i1: "1025 \<le> int (biasedExp f) + 2 ^ (eb - 1)" by simp
  have "int (biasedExp f) \<le> int (1022 + 2 ^ (eb - 1))" using w(2) by (simp only: of_nat_le_iff)
  then have i2: "int (biasedExp f) \<le> 1022 + 2 ^ (eb - 1)" by simp
  have "expClamped eb f = int (biasedExp f) - 1023"
    using i1 i2 by (simp add: expClamped_def Let_def)
  then have e: "nat (expClamped eb f + 1023) = biasedExp f" by simp
  have t: "signifTrunc sb f * 2 ^ (52 - sb) = fraction f"
    using w(3) by (simp add: signifTrunc_def mod_eq_0_iff_dvd)
  have "squeezed eb sb f * 2 ^ (52 - sb)
      = biasedExp f * (2 ^ sb * 2 ^ (52 - sb)) + signifTrunc sb f * 2 ^ (52 - sb)"
    by (simp only: squeezed_def e add_mult_distrib mult.assoc)
  also have "\<dots> = biasedExp f * 2 ^ 52 + fraction f"
    using assms(3) by (simp only: t pow52_split [symmetric])
  finally show ?thesis by (simp only: fields_sum)
qed

lemma widthNormal_facts:
  assumes "2 \<le> eb" "eb \<le> 11" "widthNormal eb sb f"
  shows "\<not> isNaN f" and "\<not> isZero f" and "0 < unat (f AND mask 63)"
proof -
  have w: "1025 \<le> biasedExp f + 2 ^ (eb - 1)" "biasedExp f \<le> 1022 + 2 ^ (eb - 1)"
    using assms(3) by (simp_all add: widthNormal_def)
  have "(2::nat) ^ (eb - 1) \<le> 2 ^ 10" using assms(2) by (intro power_increasing) simp_all
  then have p: "(2::nat) ^ (eb - 1) \<le> 1024" by simp
  then have b: "1 \<le> biasedExp f" "biasedExp f \<le> 2046" using w by simp_all
  have "fraction f < 2 ^ 52" by (simp add: fraction_def)
  then have "biasedExp f * 2 ^ 52 + fraction f < 2047 * 2 ^ 52" using b(2) by simp
  then show "\<not> isNaN f" by (simp only: isNaN_unat fields_sum not_less)
  have "1 * 2 ^ 52 \<le> biasedExp f * 2 ^ 52" using b(1) by (intro mult_le_mono1)
  then have "0 < biasedExp f * 2 ^ 52 + fraction f" by simp
  then show pos: "0 < unat (f AND mask 63)" by (simp only: fields_sum)
  then show "\<not> isZero f" by (auto simp: isZero_def)
qed

lemma widthNormal_fneg: "widthNormal eb sb (fneg f) = widthNormal eb sb f"
  by (simp add: widthNormal_def biasedExp_def fraction_def fabs_fneg)

lemma isZero_fneg: "isZero (fneg f) = isZero f"
  by (simp add: isZero_def fabs_fneg)

lemma genUfloatRange_within:
  assumes X: "rangeContract X"
    and eb: "2 \<le> unat eb" "unat eb \<le> 11" and sb: "unat sb \<le> 52"
    and lo: "isZero lo \<or> widthNormal (unat eb) (unat sb) lo"
    and hi: "widthNormal (unat eb) (unat sb) hi"
    and r: "genUfloatRange X s lo hi eb sb = Inr (v, s')"
  shows "unat (lo AND mask 63) \<le> unat v" and "unat v \<le> unat (hi AND mask 63)"
proof -
  from genUfloatRange_squeezed [OF X eb sb r] obtain z where
    z: "unat v = z * 2 ^ (52 - unat sb)" "squeezed (unat eb) (unat sb) lo \<le> z"
      "z \<le> squeezed (unat eb) (unat sb) hi"
    by blast
  have "z * 2 ^ (52 - unat sb) \<le> squeezed (unat eb) (unat sb) hi * 2 ^ (52 - unat sb)"
    using z(3) by (rule mult_le_mono1)
  then show "unat v \<le> unat (hi AND mask 63)"
    by (simp only: z(1) squeezed_normal [OF eb sb hi])
  show "unat (lo AND mask 63) \<le> unat v"
  proof (cases "isZero lo")
    case True
    then show ?thesis by (simp add: isZero_def)
  next
    case False
    then have n: "widthNormal (unat eb) (unat sb) lo" using lo by simp
    have "squeezed (unat eb) (unat sb) lo * 2 ^ (52 - unat sb) \<le> z * 2 ^ (52 - unat sb)"
      using z(2) by (rule mult_le_mono1)
    then show ?thesis by (simp only: z(1) squeezed_normal [OF eb sb n])
  qed
qed

lemma fkey_abs:
  "fkey f \<le> uint (f AND mask 63)" "- uint (f AND mask 63) \<le> fkey f"
  "0 \<le> fkey f \<Longrightarrow> fkey f = uint (f AND mask 63)"
  "fkey f \<le> 0 \<Longrightarrow> fkey f = - uint (f AND mask 63)"
  by (auto simp: fkey_def split: if_splits)

lemma isZero_fkey: "isZero f = (fkey f = 0)"
  by (auto simp: isZero_def fkey_def uint_0_iff split: if_splits)

lemma isZero_fzero: "isZero fzero"
  by (simp add: isZero_def fzero_def)

lemma drawn_magnitude:
  assumes "unat v \<le> unat (hi AND mask 63)" "\<not> isNaN hi"
  shows "\<not> isNaN v" and "fkey v = uint v"
    and "\<not> isNaN (fneg v)" and "fkey (fneg v) = - uint v"
proof -
  have lt: "unat v < 2 ^ 63" using assms(1) unat_fabs_less [of hi] by simp
  note m = magnitude_word [OF lt]
  have "unat (hi AND mask 63) \<le> 2047 * 2 ^ 52" using assms(2) by (simp only: isNaN_unat not_less)
  with assms(1) have "unat v \<le> 2047 * 2 ^ 52" by (rule order_trans)
  then have "unat (v AND mask 63) \<le> 2047 * 2 ^ 52" by (simp only: m(1))
  then show n: "\<not> isNaN v" by (simp only: isNaN_unat not_less)
  show k: "fkey v = uint v" using m by (simp add: fkey_def)
  show "\<not> isNaN (fneg v)" using n by (simp add: isNaN_fneg)
  show "fkey (fneg v) = - uint v" using k by (simp add: fkey_fneg)
qed

lemma unat_le_uint: "unat (a :: 64 word) \<le> unat (b :: 64 word) \<Longrightarrow> uint a \<le> uint b"
  by (simp add: word_le_nat_alt [symmetric] word_le_def)

section \<open>Runs on recorded streams\<close>

lemma replay_rangeContract: "rangeContract replay"
  unfolding rangeContract_def replay_def
  by (auto simp: drawWord_def Let_def split: if_splits option.splits)

lemma replay_coinContract: "coinContract replay"
  unfolding coinContract_def replay_def by (simp add: fzero_def fone_def)

lemma run_pos:
  "genFloatRange replay (stream [2, 1, 3]) 0x4000000000000000 0x4024000000000000 11 52 =
     Inr (0x4017000000000000, \<lparr>recorded = [2, 1, 3], cursor = 3, groupLog = [BeginGroup ''floatexp'' False 0, EndGroup 0 False,
        BeginGroup ''floatsignif'' False 2, EndGroup 2 False]\<rparr>)"
  by code_simp

lemma run_upos:
  "genUfloatRange replay (stream [2, 1, 3]) 0x4000000000000000 0x4024000000000000 11 52 =
     Inr (0x4017000000000000, \<lparr>recorded = [2, 1, 3], cursor = 3, groupLog = [BeginGroup ''floatexp'' False 0, EndGroup 0 False,
        BeginGroup ''floatsignif'' False 2, EndGroup 2 False]\<rparr>)"
  by code_simp

lemma run_neg:
  "genFloatRange replay (stream [2, 1, 3]) 0xC024000000000000 0xC000000000000000 11 52 =
     Inr (0xC017000000000000, \<lparr>recorded = [2, 1, 3], cursor = 3, groupLog = [BeginGroup ''floatexp'' False 0, EndGroup 0 False,
        BeginGroup ''floatsignif'' False 2, EndGroup 2 False]\<rparr>)"
  by code_simp

lemma run_uneg:
  "genUfloatRange replay (stream [2, 1, 3]) (fneg 0xC000000000000000) (fneg 0xC024000000000000) 11 52 =
     Inr (0x4017000000000000, \<lparr>recorded = [2, 1, 3], cursor = 3, groupLog = [BeginGroup ''floatexp'' False 0, EndGroup 0 False,
        BeginGroup ''floatsignif'' False 2, EndGroup 2 False]\<rparr>)"
  by code_simp

lemma run_subnormal:
  "genFloatRange replay (stream [0, 0, 0]) 0 1 11 52 =
     Inr (0x0010000000000000, \<lparr>recorded = [0, 0, 0], cursor = 3, groupLog = [BeginGroup ''floatexp'' False 0, EndGroup 0 False,
        BeginGroup ''floatsignif'' False 2, EndGroup 2 False]\<rparr>)"
  by code_simp

lemma run_zero:
  "genFloatRange replay (stream [0, 0, 0]) 0 0 11 52 =
     Inr (0x0010000000000000, \<lparr>recorded = [0, 0, 0], cursor = 3, groupLog = [BeginGroup ''floatexp'' False 0, EndGroup 0 False,
        BeginGroup ''floatsignif'' False 2, EndGroup 2 False]\<rparr>)"
  by code_simp

lemma run_uzero_neg:
  "genUfloatRange replay (stream [0, 0, 0]) (fneg 0) (fneg 0) 11 52 =
     Inr (0x0010000000000000, \<lparr>recorded = [0, 0, 0], cursor = 3, groupLog = [BeginGroup ''floatexp'' False 0, EndGroup 0 False,
        BeginGroup ''floatsignif'' False 2, EndGroup 2 False]\<rparr>)"
  by code_simp

lemma cmp_2_10: "fle 0x4000000000000000 0x4024000000000000" by code_simp
lemma cmp_m10_m2: "fle 0xC024000000000000 0xC000000000000000" by code_simp
lemma normal_2: "widthNormal 11 52 0x4000000000000000"
  by (simp add: widthNormal_def biasedExp_def fraction_def unat_and_mask)
lemma normal_10: "widthNormal 11 52 0x4024000000000000"
  by (simp add: widthNormal_def biasedExp_def fraction_def unat_and_mask)
lemma unat_widths: "unat (11 :: 64 word) = 11" "unat (52 :: 64 word) = 52"
  "unat (8 :: 64 word) = 8" "unat (23 :: 64 word) = 23"
  by simp_all

section \<open>The claims about the range generator\<close>

text \<open>
  C6. After the fractional significand \<open>sf\<close> is drawn with width \<open>w\<close>, \<open>genUfloatRange\<close>
  doubles it \<open>k\<close> times with \<open>k\<close> at most \<open>fracBits - w\<close>: the value returned is assembled
  from \<open>sf\<close> shifted left by \<open>k\<close>. No doubling wraps around 64 bits, the shifted value
  stays within \<open>[sfMin, sfMax]\<close>, it is \<open>sf\<close> itself when \<open>sf\<close> is 0 or the bounds are a
  single value, and the loop stops before its count is used up only when one more doubling
  would fall below \<open>sfMin\<close>, exceed \<open>sfMax\<close> or wrap.
\<close>

theorem genUfloatRange_doubling:
  assumes "rangeContract X" and "genUfloatRange X s lo hi eb sb = Inr (v, s')"
  shows "\<exists>e si sf w sfMin sfMax sc sc' k.
      genUintRangeWidth X sc sfMin sfMax True = Some ((sf, w), sc') \<and>
      k \<le> nat (sint (ufloatFracBits (ucast e) sb - w)) \<and>
      unat sf * 2 ^ k < 2 ^ 64 \<and>
      sfMin \<le> push_bit k sf \<and> push_bit k sf \<le> sfMax \<and>
      (sf = 0 \<or> sfMin = sfMax \<longrightarrow> push_bit k sf = sf) \<and>
      (k < nat (sint (ufloatFracBits (ucast e) sb - w)) \<longrightarrow>
         push_bit (Suc k) sf < sfMin \<or> sfMax < push_bit (Suc k) sf \<or>
         2 ^ 64 \<le> unat sf * 2 ^ Suc k) \<and>
      v = push_bit 52 (e + mask 10) OR
          push_bit (unat (float64SignifBits - sb))
            (push_bit (unat (ufloatFracBits (ucast e) sb)) si OR push_bit k sf)"
proof -
  obtain minExp minI minF where pmin: "ufloatParts lo eb sb = (minExp, minI, minF)"
    by (cases "ufloatParts lo eb sb") auto
  obtain maxExp maxI maxF where pmax: "ufloatParts hi eb sb = (maxExp, maxI, maxF)"
    by (cases "ufloatParts hi eb sb") auto
  from genUfloatRange_InrD [OF assms(2) pmin pmax]
  obtain e si sf w sc sc' sfMin sfMax where
    g3: "genUintRangeWidth X sc sfMin sfMax True = Some ((sf, w), sc')" and
    v: "push_bit 52 (e + mask 10) OR
        push_bit (unat (float64SignifBits - sb))
          (push_bit (unat (ufloatFracBits (ucast e) sb)) si OR
           shiftLoop (nat (sint (ufloatFracBits (ucast e) sb - w))) sf sfMin sfMax) = v"
    by blast
  define n where "n = nat (sint (ufloatFracBits (ucast e) sb - w))"
  have sfr: "sfMin \<le> sf" "sf \<le> sfMax"
    using assms(1) g3 unfolding rangeContract_def by blast+
  from shiftLoop_shift [of n sf sfMin sfMax] obtain k where k: "k \<le> n"
    "shiftLoop n sf sfMin sfMax = push_bit k sf" "unat sf * 2 ^ k < 2 ^ 64"
    "k < n \<longrightarrow> push_bit (Suc k) sf < sfMin \<or> sfMax < push_bit (Suc k) sf \<or>
        2 ^ 64 \<le> unat sf * 2 ^ Suc k"
    by blast
  have inr: "sfMin \<le> push_bit k sf" "push_bit k sf \<le> sfMax"
    using shiftLoop_in_range [OF sfr, of n] k(2) by simp_all
  have same: "sf = 0 \<or> sfMin = sfMax \<longrightarrow> push_bit k sf = sf"
    using inr sfr by auto
  show ?thesis
    using g3 k(1,3,4) inr same v [unfolded n_def [symmetric] k(2), symmetric]
    unfolding n_def by blast
qed

theorem genUfloatRange_doubling_witness:
  "\<exists>e si sf w sfMin sfMax k.
      unat sf * 2 ^ k < 2 ^ 64 \<and> sfMin \<le> push_bit k sf \<and> push_bit k sf \<le> sfMax \<and>
      (0x4017000000000000 :: 64 word) = push_bit 52 (e + mask 10) OR
          push_bit (unat (float64SignifBits - 52))
            (push_bit (unat (ufloatFracBits (ucast e) 52)) si OR push_bit k sf)"
  using genUfloatRange_doubling [OF replay_rangeContract run_upos] by blast

text \<open>
  C10. The assertion at the top of \<open>genUfloatRange\<close> never fails in a call made by
  \<open>genFloatRange\<close> on bounds with \<open>min <= max\<close> (so neither is a NaN): in each of the three
  cases the sub-range passed has a non-negative lower end that is not above its upper end.
  In the model only that assertion produces \<open>AssertionFailed\<close>; the decoders abort with
  \<open>DrawAborted\<close>.
\<close>

theorem genFloatRange_assert_unreachable:
  assumes "coinContract X" and "fle fmin fmax"
  shows "genFloatRange X s fmin fmax eb sb \<noteq> Inl (AssertionFailed m)"
proof
  assume a: "genFloatRange X s fmin fmax eb sb = Inl (AssertionFailed m)"
  have nn: "\<not> isNaN fmin" "\<not> isNaN fmax" "fkey fmin \<le> fkey fmax"
    using assms(2) by (simp_all add: fle_def)
  have c0: "flipBiasedCoin X s fzero = Some (False, s)" and c1: "flipBiasedCoin X s fone = Some (True, s)"
    using assms(1) by (simp_all add: coinContract_def)
  consider (pos) "fge fmin fzero" | (neg) "\<not> fge fmin fzero" "fle fmax fzero"
    | (cross) "\<not> fge fmin fzero" "\<not> fle fmax fzero" by blast
  then show False
  proof cases
    case pos
    then have "genUfloatRange X s fmin fmax eb sb = Inl (AssertionFailed m)"
      using a by (simp add: genFloatRange_def c0)
    then show False using pos assms(2) by (auto dest: genUfloatRange_assert)
  next
    case neg
    then have "genUfloatRange X s (fneg fmax) (fneg fmin) eb sb = Inl (AssertionFailed m)"
      using a by (auto simp: genFloatRange_def c1 split: sum.splits prod.splits)
    moreover have "fge (fneg fmax) fzero" using neg(2) by (simp add: fge_fzero fle_fzero isNaN_fneg fkey_fneg)
    moreover have "fle (fneg fmax) (fneg fmin)" using assms(2) by (simp add: fle_fneg)
    ultimately show False by (auto dest: genUfloatRange_assert)
  next
    case cross
    have lo: "fge fzero fzero" by (simp add: fge_fzero fzero_facts)
    have up1: "fle fzero (fneg fmin)" using cross(1) nn by (simp add: fle_def fge_fzero fzero_facts isNaN_fneg fkey_fneg)
    have up2: "fle fzero fmax" using cross(2) nn by (simp add: fle_def fle_fzero fzero_facts)
    from a cross obtain s1 where
      "genUfloatRange X s1 fzero (fneg fmin) eb sb = Inl (AssertionFailed m) \<or>
       genUfloatRange X s1 fzero fmax eb sb = Inl (AssertionFailed m)"
      by (auto simp: genFloatRange_def Let_def split: option.splits sum.splits if_splits prod.splits)
    then show False using lo up1 up2 by (auto dest: genUfloatRange_assert)
  qed
qed

theorem genFloatRange_assert_unreachable_witness:
  "genFloatRange replay (stream [2, 1, 3]) 0xC024000000000000 0xC000000000000000 11 52
     \<noteq> Inl (AssertionFailed [])"
  using genFloatRange_assert_unreachable [OF replay_coinContract cmp_m10_m2] by blast

text \<open>
  C4, as amended. \<open>genFloatRange\<close> flips the biased coin with the probability of the
  negative sub-range: 0 when \<open>min >= 0\<close>; 1 when \<open>max <= 0\<close> and not \<open>min >= 0\<close>; and
  \<open>neg / (neg + pos)\<close> with \<open>neg = log1p(log1p(-min))\<close> and \<open>pos = log1p(log1p(max))\<close>
  otherwise. With an exact coin the result for \<open>min >= 0\<close> is the draw from the positive
  sub-range \<open>[min, max]\<close>, and for \<open>max <= 0\<close> with \<open>min\<close> negative it is the negated draw
  from \<open>[-max, -min]\<close>.
\<close>

theorem genFloatRange_coin:
  "genFloatRange X s fmin fmax eb sb =
     (case flipBiasedCoin X s
             (if fge fmin fzero then fzero
              else if fle fmax fzero then fone
              else fdiv X (Log1p X (Log1p X (fneg fmin)))
                     (fadd X (Log1p X (Log1p X (fneg fmin))) (Log1p X (Log1p X fmax)))) of
        None \<Rightarrow> Inl DrawAborted
      | Some (c, s1) \<Rightarrow>
         (if c then
            (case genUfloatRange X s1 (if \<not> fge fmin fzero \<and> fle fmax fzero then fneg fmax else fzero)
                    (fneg fmin) eb sb of
               Inl f \<Rightarrow> Inl f | Inr (v, s2) \<Rightarrow> Inr (fneg v, s2))
          else genUfloatRange X s1 (if fge fmin fzero then fmin else fzero) fmax eb sb)) \<and>
   (coinContract X \<and> fge fmin fzero \<longrightarrow>
      genFloatRange X s fmin fmax eb sb = genUfloatRange X s fmin fmax eb sb) \<and>
   (coinContract X \<and> \<not> fge fmin fzero \<and> fle fmax fzero \<longrightarrow>
      genFloatRange X s fmin fmax eb sb =
        (case genUfloatRange X s (fneg fmax) (fneg fmin) eb sb of
           Inl f \<Rightarrow> Inl f | Inr (v, s2) \<Rightarrow> Inr (fneg v, s2)))"
  by (auto simp: genFloatRange_def Let_def coinContract_def split: option.splits)

theorem genFloatRange_coin_witness:
  "genFloatRange replay (stream [2, 1, 3]) 0x4000000000000000 0x4024000000000000 11 52 =
     genUfloatRange replay (stream [2, 1, 3]) 0x4000000000000000 0x4024000000000000 11 52 \<and>
   genFloatRange replay (stream [2, 1, 3]) 0xC024000000000000 0xC000000000000000 11 52 =
     (case genUfloatRange replay (stream [2, 1, 3]) (fneg 0xC000000000000000)
             (fneg 0xC024000000000000) 11 52 of
        Inl f \<Rightarrow> Inl f | Inr (v, s2) \<Rightarrow> Inr (fneg v, s2))"
proof -
  have a: "fge 0x4000000000000000 fzero" by code_simp
  have b: "\<not> fge 0xC024000000000000 fzero" "fle 0xC000000000000000 fzero" by code_simp+
  show ?thesis
    using genFloatRange_coin [of replay "stream [2, 1, 3]" "0x4000000000000000" "0x4024000000000000" 11 52]
      genFloatRange_coin [of replay "stream [2, 1, 3]" "0xC024000000000000" "0xC000000000000000" 11 52]
      replay_coinContract a b
    by blast
qed

text \<open>
  The claim as it was stated gives probability 1 and the negated negative sub-range
  whenever \<open>max <= 0\<close>. For \<open>min = max = 0\<close> the test \<open>min >= 0\<close> comes first: the value
  returned is the positive \<open>0x0010000000000000\<close>, while the negated draw from
  \<open>[-max, -min]\<close> would be \<open>0x8010000000000000\<close>.
\<close>

theorem genFloatRange_coin_counterexample:
  "fle 0 fzero \<and>
   genFloatRange replay (stream [0, 0, 0]) 0 0 11 52 =
     Inr (0x0010000000000000, \<lparr>recorded = [0, 0, 0], cursor = 3, groupLog = [BeginGroup ''floatexp'' False 0, EndGroup 0 False,
        BeginGroup ''floatsignif'' False 2, EndGroup 2 False]\<rparr>) \<and>
   genUfloatRange replay (stream [0, 0, 0]) (fneg 0) (fneg 0) 11 52 =
     Inr (0x0010000000000000, \<lparr>recorded = [0, 0, 0], cursor = 3, groupLog = [BeginGroup ''floatexp'' False 0, EndGroup 0 False,
        BeginGroup ''floatsignif'' False 2, EndGroup 2 False]\<rparr>) \<and>
   fneg 0x0010000000000000 = 0x8010000000000000"
proof -
  have "fle 0 fzero" by code_simp
  moreover have "fneg 0x0010000000000000 = 0x8010000000000000" by code_simp
  ultimately show ?thesis using run_zero run_uzero_neg by blast
qed

text \<open>
  C1, as amended. Let \<open>min <= max\<close> (so neither is a NaN), let each bound be a zero or a
  normal number of the target width (exponent within the band \<open>ufloatParts\<close> clamps to,
  significand within \<open>signifBits\<close> bits), and let them not both be zero. Then every value
  \<open>v\<close> that \<open>genFloatRange\<close> returns satisfies \<open>min <= v <= max\<close>, for all widths with
  \<open>2 <= expBits <= 11\<close> and \<open>signifBits <= 52\<close>.
\<close>

theorem genFloatRange_in_range:
  assumes X: "rangeContract X" and C: "coinContract X"
    and eb: "2 \<le> unat eb" "unat eb \<le> 11" and sb: "unat sb \<le> 52"
    and le: "fle fmin fmax"
    and bmin: "isZero fmin \<or> widthNormal (unat eb) (unat sb) fmin"
    and bmax: "isZero fmax \<or> widthNormal (unat eb) (unat sb) fmax"
    and nz: "\<not> (isZero fmin \<and> isZero fmax)"
    and r: "genFloatRange X s fmin fmax eb sb = Inr (v, s')"
  shows "fle fmin v \<and> fle v fmax"
proof -
  have nn: "\<not> isNaN fmin" "\<not> isNaN fmax" "fkey fmin \<le> fkey fmax"
    using le by (simp_all add: fle_def)
  have c0: "flipBiasedCoin X s fzero = Some (False, s)" and c1: "flipBiasedCoin X s fone = Some (True, s)"
    using C by (simp_all add: coinContract_def)
  note within = genUfloatRange_within [OF X eb sb]
  consider (pos) "fge fmin fzero" | (neg) "\<not> fge fmin fzero" "fle fmax fzero"
    | (cross) "\<not> fge fmin fzero" "\<not> fle fmax fzero" by blast
  then show ?thesis
  proof cases
    case pos
    then have k0: "0 \<le> fkey fmin" by (simp add: fge_fzero)
    have run: "genUfloatRange X s fmin fmax eb sb = Inr (v, s')"
      using r pos by (simp add: genFloatRange_def c0)
    have "\<not> isZero fmax" using k0 nn(3) nz by (auto simp: isZero_fkey)
    then have hi: "widthNormal (unat eb) (unat sb) fmax" using bmax by simp
    note b = within [OF bmin hi run]
    note d = drawn_magnitude [OF b(2) nn(2)]
    have "fkey fmin \<le> fkey v" using fkey_abs(1) [of fmin] unat_le_uint [OF b(1)] d(2) by simp
    moreover have "fkey v \<le> fkey fmax"
      using fkey_abs(3) [of fmax] k0 nn(3) unat_le_uint [OF b(2)] d(2) by simp
    ultimately show ?thesis using nn d(1) by (simp add: fle_def)
  next
    case neg
    then have k1: "fkey fmin < 0" using nn(1) by (simp add: fge_fzero)
    have k2: "fkey fmax \<le> 0" using neg(2) by (simp add: fle_fzero)
    from r neg obtain v0 where run: "genUfloatRange X s (fneg fmax) (fneg fmin) eb sb = Inr (v0, s')"
      and v: "v = fneg v0"
      by (auto simp: genFloatRange_def c1 split: sum.splits prod.splits)
    have "\<not> isZero fmin" using k1 by (simp add: isZero_fkey)
    then have hi: "widthNormal (unat eb) (unat sb) (fneg fmin)"
      using bmin by (simp add: widthNormal_fneg)
    have lo: "isZero (fneg fmax) \<or> widthNormal (unat eb) (unat sb) (fneg fmax)"
      using bmax by (simp add: widthNormal_fneg isZero_fneg)
    note b = within [OF lo hi run, unfolded fabs_fneg]
    have "unat v0 \<le> unat (fneg fmin AND mask 63)" using b(2) by (simp only: fabs_fneg)
    note d = drawn_magnitude [OF this, unfolded isNaN_fneg, OF nn(1)]
    have "fkey fmin \<le> fkey v" using fkey_abs(4) [of fmin] k1 unat_le_uint [OF b(2)] d(4) v by simp
    moreover have "fkey v \<le> fkey fmax" using fkey_abs(4) [of fmax] k2 unat_le_uint [OF b(1)] d(4) v by simp
    ultimately show ?thesis using nn d(1) v by (simp add: fle_def isNaN_fneg)
  next
    case cross
    have k1: "fkey fmin < 0" using cross(1) nn(1) by (simp add: fge_fzero)
    have k2: "0 < fkey fmax" using cross(2) nn(2) by (simp add: fle_fzero)
    have "\<not> isZero fmin" "\<not> isZero fmax" using k1 k2 by (simp_all add: isZero_fkey)
    then have wn: "widthNormal (unat eb) (unat sb) fmin" "widthNormal (unat eb) (unat sb) fmax"
      using bmin bmax by simp_all
    have z: "isZero fzero \<or> widthNormal (unat eb) (unat sb) fzero" by (simp add: isZero_fzero)
    from r cross obtain c s1 where
      alt: "(c \<and> (\<exists>v0. genUfloatRange X s1 fzero (fneg fmin) eb sb = Inr (v0, s') \<and> v = fneg v0)) \<or>
            (\<not> c \<and> genUfloatRange X s1 fzero fmax eb sb = Inr (v, s'))"
      by (auto simp: genFloatRange_def Let_def split: option.splits sum.splits prod.splits if_splits)
    show ?thesis
    proof (cases c)
      case True
      with alt obtain v0 where run: "genUfloatRange X s1 fzero (fneg fmin) eb sb = Inr (v0, s')"
        and v: "v = fneg v0" by blast
      have hi: "widthNormal (unat eb) (unat sb) (fneg fmin)" using wn(1) by (simp add: widthNormal_fneg)
      note b = within [OF z hi run]
      note d = drawn_magnitude [OF b(2), unfolded isNaN_fneg, OF nn(1)]
      have "unat v0 \<le> unat (fmin AND mask 63)" using b(2) by (simp only: fabs_fneg)
      then have "uint v0 \<le> uint (fmin AND mask 63)" by (rule unat_le_uint)
      then have "fkey fmin \<le> fkey v" using fkey_abs(4) [of fmin] k1 d(4) v by simp
      moreover have "- uint v0 \<le> 0" by simp
      with k2 have "- uint v0 \<le> fkey fmax" by linarith
      then have "fkey v \<le> fkey fmax" using d(4) v by simp
      ultimately show ?thesis using nn d(1) v by (simp add: fle_def isNaN_fneg)
    next
      case False
      with alt have run: "genUfloatRange X s1 fzero fmax eb sb = Inr (v, s')" by blast
      note b = within [OF z wn(2) run]
      note d = drawn_magnitude [OF b(2) nn(2)]
      have "0 \<le> uint v" by simp
      with k1 have "fkey fmin \<le> uint v" by linarith
      then have "fkey fmin \<le> fkey v" using d(2) by simp
      moreover have "fkey v \<le> fkey fmax" using fkey_abs(3) [of fmax] k2 unat_le_uint [OF b(2)] d(2) by simp
      ultimately show ?thesis using nn d(1) by (simp add: fle_def)
    qed
  qed
qed

theorem genFloatRange_in_range_witness:
  "fle 0x4000000000000000 0x4017000000000000 \<and> fle 0x4017000000000000 0x4024000000000000"
proof -
  have "\<not> isZero 0x4000000000000000" by code_simp
  then show ?thesis
    using genFloatRange_in_range [of replay 11 52 "0x4000000000000000" "0x4024000000000000"
        "stream [2, 1, 3]" "0x4017000000000000"]
      replay_rangeContract replay_coinContract cmp_2_10 normal_2 normal_10 run_pos
    by (simp add: unat_widths)
qed

text \<open>
  Without the condition on the bounds the claim fails: for \<open>min = 0\<close> and \<open>max\<close> the
  smallest subnormal (bit pattern 1), the value returned is the smallest normal number,
  which is above \<open>max\<close>.
\<close>

theorem genFloatRange_in_range_counterexample:
  "\<not> isNaN 0 \<and> \<not> isNaN 1 \<and> fle 0 1 \<and>
   genFloatRange replay (stream [0, 0, 0]) 0 1 11 52 =
     Inr (0x0010000000000000, \<lparr>recorded = [0, 0, 0], cursor = 3, groupLog = [BeginGroup ''floatexp'' False 0, EndGroup 0 False,
        BeginGroup ''floatsignif'' False 2, EndGroup 2 False]\<rparr>) \<and>
   \<not> fle 0x0010000000000000 1"
proof -
  have "\<not> isNaN 0" "\<not> isNaN 1" "fle 0 1" "\<not> fle 0x0010000000000000 1" by code_simp+
  then show ?thesis using run_subnormal by blast
qed

end
